theory Spec2Isabelle
  imports Complex_Main "HOL-Library.Word" "HOL-Library.Multiset" "HOL-Library.Monad_Syntax"
begin

section \<open>Pixel grids as values\<close>

text \<open>
  The program (\<^verbatim>\<open>procesador_imagenes/base.c\<close>) keeps an image in
  \<^verbatim>\<open>ImagenInfo\<close>: the three dimensions as C \<^verbatim>\<open>int\<close>s and
  \<^verbatim>\<open>unsigned char*** pixeles\<close>, indexed \<^verbatim>\<open>[alto][ancho][canales]\<close>.
  For the functions that only compute with the samples, the three levels of pointers
  are three levels of lists and a sample is an 8-bit word. \<open>nivel\<close> is one
  indexing step and \<open>leer img y x c\<close> is the read \<^verbatim>\<open>img[y][x][c]\<close>. A read outside
  a level is undefined behaviour in C; here it is the value \<open>None\<close>, so that a
  function reading out of bounds returns an error instead of a sample.

  C \<^verbatim>\<open>int\<close> values are modelled as \<open>int\<close> and \<^verbatim>\<open>float\<close> values as
  \<open>real\<close>: the index arithmetic of the functions below is exact in both, and the
  floating-point operations are exact wherever a theorem of this file evaluates them
  (weights 0 and 1, samples 0..255). The indices and row bounds computed from the
  dimensions of an image held in memory stay inside the range of \<^verbatim>\<open>int\<close>, which
  is not modelled for them. The one sum of the program that leaves that range on an
  input the program accepts, \<^verbatim>\<open>sample + delta\<close> of the brightness adjustment, is
  modelled with its wrap-around.
\<close>

type_synonym uchar = "8 word"
type_synonym matriz = "uchar list list list"

datatype error =
    AccesoFueraDeLimites  \<comment> \<open>undefined behaviour: a read or write outside an array\<close>
  | ConversionIndefinida  \<comment> \<open>undefined behaviour: a float outside the range of the target type\<close>
  | ErrorAlCargar         \<comment> \<open>\<^verbatim>\<open>Error al cargar imagen\<close>\<close>
  | ErrorDeMemoria        \<comment> \<open>\<^verbatim>\<open>Error de memoria ...\<close>\<close>
  | NoHayImagen           \<comment> \<open>\<^verbatim>\<open>No hay imagen ...\<close>\<close>
  | ErrorAlGuardar        \<comment> \<open>\<^verbatim>\<open>Error al guardar PNG\<close>\<close>
  | ParametrosInvalidos   \<comment> \<open>\<^verbatim>\<open>Error: Parametros invalidos para ...\<close>\<close>
  | TamKernelInvalido     \<comment> \<open>\<^verbatim>\<open>Error: El tamano del kernel debe ser impar y positivo\<close>\<close>
  | SigmaInvalido         \<comment> \<open>\<^verbatim>\<open>Error: Sigma debe ser positivo\<close>\<close>

definition nivel :: "'a list \<Rightarrow> int \<Rightarrow> 'a option" where
  "nivel xs i = (if 0 \<le> i \<and> i < int (length xs) then Some (xs ! nat i) else None)"

definition leer :: "matriz \<Rightarrow> int \<Rightarrow> int \<Rightarrow> int \<Rightarrow> uchar option" where
  "leer img y x c =
     (case nivel img y of
        None \<Rightarrow> None
      | Some fila \<Rightarrow> (case nivel fila x of None \<Rightarrow> None | Some p \<Rightarrow> nivel p c))"

definition forma :: "matriz \<Rightarrow> int \<Rightarrow> int \<Rightarrow> int \<Rightarrow> bool" where
  "forma img alto ancho canales =
     (int (length img) = alto
      \<and> list_all (\<lambda>fila. int (length fila) = ancho
            \<and> list_all (\<lambda>p. int (length p) = canales) fila) img)"

section \<open>Bilinear interpolation\<close>

text \<open>
  \<^verbatim>\<open>interpolacionBilineal\<close>, lines 178-220. \<open>esquinas\<close> is its first half: the four
  corner indices after the four \<^verbatim>\<open>if\<close> statements of lines 188-191. Only
  \<open>x0\<close>, \<open>y0\<close> are raised to 0 and only \<open>x1\<close>, \<open>y1\<close> are lowered to the last index.
  \<^verbatim>\<open>(int)floor(x)\<close> is taken as the floor, which it is for coordinates below
  \<open>2 ^ 31\<close> in absolute value. The weighted sum is computed on real numbers: at
  fractional coordinates the rounding of \<^verbatim>\<open>float\<close> can move the converted result
  by one, so the statements below about the value returned are about integer
  coordinates, where the weights are 0 and 1 and nothing is rounded.
\<close>

definition esquinas :: "real \<Rightarrow> real \<Rightarrow> int \<Rightarrow> int \<Rightarrow> int \<times> int \<times> int \<times> int" where
  "esquinas x y ancho alto =
     (let x0 = \<lfloor>x\<rfloor>; y0 = \<lfloor>y\<rfloor>;
          x1 = x0 + 1; y1 = y0 + 1;
          x0 = (if x0 < 0 then 0 else x0);
          y0 = (if y0 < 0 then 0 else y0);
          x1 = (if x1 \<ge> ancho then ancho - 1 else x1);
          y1 = (if y1 \<ge> alto then alto - 1 else y1)
      in (x0, y0, x1, y1))"

text \<open>
  The conversion \<^verbatim>\<open>(unsigned char)(resultado + 0.5f)\<close>: the fractional part is
  discarded (towards zero); C defines the result only when the integral part is
  representable in \<^verbatim>\<open>unsigned char\<close>.
\<close>

definition a_uchar :: "real \<Rightarrow> error + uchar" where
  "a_uchar r =
     (let t = (if 0 \<le> r then \<lfloor>r\<rfloor> else \<lceil>r\<rceil>)
      in if 0 \<le> t \<and> t \<le> 255 then Inr (word_of_int t) else Inl ConversionIndefinida)"

definition a_float :: "uchar \<Rightarrow> real" where
  "a_float v = real (unat v)"

definition interpolacionBilineal ::
  "matriz \<Rightarrow> real \<Rightarrow> real \<Rightarrow> int \<Rightarrow> int \<Rightarrow> int \<Rightarrow> error + uchar" where
  "interpolacionBilineal img x y c ancho alto =
     (case esquinas x y ancho alto of (x0, y0, x1, y1) \<Rightarrow>
        let a = x - real_of_int x0;
            b = y - real_of_int y0
        in (case (leer img y0 x0 c, leer img y0 x1 c, leer img y1 x0 c, leer img y1 x1 c) of
              (Some v00, Some v10, Some v01, Some v11) \<Rightarrow>
                (let resultado = (1 - a) * (1 - b) * a_float v00
                               + a * (1 - b) * a_float v10
                               + (1 - a) * b * a_float v01
                               + a * b * a_float v11
                 in a_uchar (resultado + 1 / 2))
            | _ \<Rightarrow> Inl AccesoFueraDeLimites))"

section \<open>Loading and saving\<close>

text \<open>
  \<^verbatim>\<open>ImagenInfo\<close> (lines 35-40). The field \<^verbatim>\<open>pixeles\<close> is a pointer; the
  record leaves its type open: in this part of the file it is the grid the pointer
  leads to, \<open>None\<close> for \<^verbatim>\<open>NULL\<close>; in the part on storage it is an address.
  The fields carry the prefix \<open>i_\<close> because \<open>ancho\<close>, \<open>alto\<close> and \<open>canales\<close> are
  also the parameter names of the functions.
\<close>

record 'p ImagenInfo =
  i_ancho :: int
  i_alto :: int
  i_canales :: int
  i_pixeles :: 'p

text \<open>
  A \<^verbatim>\<open>for\<close> loop with fixed bounds is \<open>bucle\<close> over the list of its index
  values: the body is run for each value in order, and an undefined step ends the run
  with \<open>None\<close>. \<open>indices\<close> lists, in the order of execution, the index triples
  of the loop nest \<^verbatim>\<open>for y in inicio..fin-1, for x in 0..ancho-1, for c in 0..canales-1\<close>,
  which \<^verbatim>\<open>guardarPNG\<close> and \<^verbatim>\<open>ajustarBrilloHilo\<close> share.
\<close>

fun bucle :: "('s \<Rightarrow> 'a \<Rightarrow> 's option) \<Rightarrow> 'a list \<Rightarrow> 's \<Rightarrow> 's option" where
  "bucle f [] s = Some s"
| "bucle f (a # as) s = (case f s a of None \<Rightarrow> None | Some s' \<Rightarrow> bucle f as s')"

definition indices :: "int \<Rightarrow> int \<Rightarrow> int \<Rightarrow> int \<Rightarrow> (int \<times> int \<times> int) list" where
  "indices inicio fin ancho canales =
     [(y, x, c). y \<leftarrow> [inicio..fin - 1], x \<leftarrow> [0..ancho - 1], c \<leftarrow> [0..canales - 1]]"

text \<open>
  \<^verbatim>\<open>cargarImagen\<close>, lines 329-377. The decoder \<^verbatim>\<open>stbi_load\<close> is outside the
  program: its result is an argument, \<open>None\<close> when it returns \<^verbatim>\<open>NULL\<close>, else the
  buffer with the width, the height and the channel count it reports. Whether the
  allocator can serve the calls to \<^verbatim>\<open>malloc\<close> is the argument \<open>hay_memoria\<close>:
  \<open>False\<close> is the failure of the first call (lines 343-348), which returns with
  nothing allocated. A failure of a later call (lines 352-356 and 360-364) passes a
  grid whose remaining rows were never assigned to \<^verbatim>\<open>liberarImagen\<close>; that path
  is undefined in C and is not part of this function's model.
  The copy loops of lines 350-371 build the grid row by row; each sample is read from
  the buffer at \<^verbatim>\<open>(y * ancho + x) * canales + c\<close> with the channel count already
  forced to 1 or 3 (line 339).
\<close>

type_synonym decodificado = "uchar list \<times> int \<times> int \<times> int"

definition leer_dato :: "uchar list \<Rightarrow> int \<Rightarrow> uchar option" where
  "leer_dato datos i = (if 0 \<le> i \<and> i < int (length datos) then Some (datos ! nat i) else None)"

definition copiar_pixel :: "uchar list \<Rightarrow> int \<Rightarrow> int \<Rightarrow> int \<Rightarrow> int \<Rightarrow> uchar list option" where
  "copiar_pixel datos ancho canales y x =
     those (map (\<lambda>c. leer_dato datos ((y * ancho + x) * canales + c)) [0..canales - 1])"

definition copiar_fila :: "uchar list \<Rightarrow> int \<Rightarrow> int \<Rightarrow> int \<Rightarrow> uchar list list option" where
  "copiar_fila datos ancho canales y =
     those (map (copiar_pixel datos ancho canales y) [0..ancho - 1])"

definition copiar_matriz :: "uchar list \<Rightarrow> int \<Rightarrow> int \<Rightarrow> int \<Rightarrow> matriz option" where
  "copiar_matriz datos alto ancho canales =
     those (map (copiar_fila datos ancho canales) [0..alto - 1])"

text \<open>
  \<open>matriz_de\<close> names the grid a buffer stands for, for the statements below.
\<close>

definition matriz_de :: "uchar list \<Rightarrow> int \<Rightarrow> int \<Rightarrow> int \<Rightarrow> matriz" where
  "matriz_de datos alto ancho canales =
     map (\<lambda>y. map (\<lambda>x. map (\<lambda>c. datos ! nat ((y * ancho + x) * canales + c)) [0..canales - 1])
                 [0..ancho - 1]) [0..alto - 1]"

definition cargarImagen :: "decodificado option \<Rightarrow> bool \<Rightarrow> error + matriz option ImagenInfo" where
  "cargarImagen stbi_load hay_memoria =
     (case stbi_load of
        None \<Rightarrow> Inl ErrorAlCargar
      | Some (datos, ancho, alto, canales) \<Rightarrow>
          (let canales' = (if canales = 1 \<or> canales = 3 then canales else 1)
           in if \<not> hay_memoria then Inl ErrorDeMemoria
              else (case copiar_matriz datos alto ancho canales' of
                      None \<Rightarrow> Inl AccesoFueraDeLimites
                    | Some px \<Rightarrow>
                        Inr \<lparr>i_ancho = ancho, i_alto = alto, i_canales = canales',
                             i_pixeles = Some px\<rparr>)))"

definition escribir_dato :: "uchar option list \<Rightarrow> int \<Rightarrow> uchar \<Rightarrow> uchar option list option" where
  "escribir_dato datos1D i v =
     (if 0 \<le> i \<and> i < int (length datos1D) then Some (datos1D[nat i := Some v]) else None)"

definition paso_aplanar ::
  "matriz \<Rightarrow> int \<Rightarrow> int \<Rightarrow> uchar option list \<Rightarrow> int \<times> int \<times> int \<Rightarrow> uchar option list option" where
  "paso_aplanar px ancho canales datos1D =
     (\<lambda>(y, x, c). case leer px y x c of
                    None \<Rightarrow> None
                  | Some v \<Rightarrow> escribir_dato datos1D ((y * ancho + x) * canales + c) v)"

definition aplanar :: "matriz option ImagenInfo \<Rightarrow> bool \<Rightarrow> error + uchar option list" where
  "aplanar info hay_memoria =
     (case i_pixeles info of
        None \<Rightarrow> Inl NoHayImagen
      | Some px \<Rightarrow>
          if \<not> hay_memoria then Inl ErrorDeMemoria
          else (case bucle (paso_aplanar px (i_ancho info) (i_canales info))
                       (indices 0 (i_alto info) (i_ancho info) (i_canales info))
                       (replicate (nat (i_ancho info * i_alto info * i_canales info)) None) of
                  None \<Rightarrow> Inl AccesoFueraDeLimites
                | Some datos1D \<Rightarrow> Inr datos1D))"

text \<open>
  \<^verbatim>\<open>guardarPNG\<close>, lines 407-443. \<open>aplanar\<close> is its first part (lines 408-427):
  the flat buffer is allocated uninitialised (every cell \<open>None\<close>) and filled by the
  loop nest. The encoder \<^verbatim>\<open>stbi_write_png\<close> is outside the program: it is an
  argument that maps the call it receives (width, height, channels, buffer, stride)
  to its result.
\<close>

type_synonym escritura = "int \<times> int \<times> int \<times> uchar option list \<times> int"

definition guardarPNG ::
  "(escritura \<Rightarrow> bool) \<Rightarrow> matriz option ImagenInfo \<Rightarrow> bool \<Rightarrow> error + unit" where
  "guardarPNG stbi_write_png info hay_memoria =
     (case aplanar info hay_memoria of
        Inl e \<Rightarrow> Inl e
      | Inr datos1D \<Rightarrow>
          if stbi_write_png (i_ancho info, i_alto info, i_canales info, datos1D,
                             i_ancho info * i_canales info)
          then Inr () else Inl ErrorAlGuardar)"

section \<open>Concurrent brightness adjustment\<close>

text \<open>
  \<open>escribir img y x c v\<close> is the assignment \<^verbatim>\<open>img[y][x][c] = v\<close>: two indexing
  steps and a store, undefined outside the grid.
\<close>

definition escribir :: "matriz \<Rightarrow> int \<Rightarrow> int \<Rightarrow> int \<Rightarrow> uchar \<Rightarrow> matriz option" where
  "escribir img y x c v =
     (case nivel img y of
        None \<Rightarrow> None
      | Some fila \<Rightarrow>
          (case nivel fila x of
             None \<Rightarrow> None
           | Some p \<Rightarrow>
               if 0 \<le> c \<and> c < int (length p)
               then Some (img[nat y := fila[nat x := p[nat c := v]]])
               else None))"

text \<open>
  \<^verbatim>\<open>BrilloArgs\<close> (lines 448-455), fields with the prefix \<open>b_\<close>. Its field
  \<^verbatim>\<open>pixeles\<close> is the same pointer in every thread; it is not a field here: the
  grid it leads to is the state the threads' steps act on.
\<close>

record BrilloArgs =
  b_inicio :: int
  b_fin :: int
  b_ancho :: int
  b_canales :: int
  b_delta :: int

text \<open>
  \<^verbatim>\<open>ajustarBrilloHilo\<close>, lines 460-472. \<open>ajuste\<close> is the new value of a sample
  (lines 465-467). The sample is promoted to \<^verbatim>\<open>int\<close> and the sum
  \<^verbatim>\<open>pixeles[y][x][c] + delta\<close> is a sum of two 32-bit \<^verbatim>\<open>int\<close>s. Where the
  exact sum is above \<^verbatim>\<open>INT_MAX\<close> the addition overflows: that is undefined in C, and
  the compiled program leaves the two's complement result, which \<open>como_int\<close> writes
  out (the value of the 32-bit pattern of an integer, read as signed). An action \<open>(delta, y, x, c)\<close> is one
  execution of the loop body: the read of \<^verbatim>\<open>pixeles[y][x][c]\<close> and the store of
  its new value. \<open>pasosHilo\<close> lists the actions of a thread in the order it runs
  them; \<open>ajustarBrilloHilo\<close> is the thread running alone.
\<close>

definition como_int :: "int \<Rightarrow> int" where
  "como_int z = (z + 2 ^ 31) mod 2 ^ 32 - 2 ^ 31"

definition ajuste :: "int \<Rightarrow> uchar \<Rightarrow> uchar" where
  "ajuste delta v =
     (let nuevoValor = como_int (uint v + delta)
      in word_of_int (if nuevoValor < 0 then 0 else (if nuevoValor > 255 then 255 else nuevoValor)))"

type_synonym accion = "int \<times> int \<times> int \<times> int"

definition paso_brillo :: "matriz \<Rightarrow> accion \<Rightarrow> matriz option" where
  "paso_brillo px = (\<lambda>(delta, y, x, c).
     case leer px y x c of
       None \<Rightarrow> None
     | Some v \<Rightarrow> escribir px y x c (ajuste delta v))"

definition pasosHilo :: "BrilloArgs \<Rightarrow> accion list" where
  "pasosHilo bArgs =
     map (Pair (b_delta bArgs))
       (indices (b_inicio bArgs) (b_fin bArgs) (b_ancho bArgs) (b_canales bArgs))"


text \<open>
  \<^verbatim>\<open>ajustarBrilloConcurrente\<close>, lines 477-512. \<open>argsHilo\<close> is the body of the
  first loop up to the call of \<^verbatim>\<open>pthread_create\<close>, whose outcome for thread
  \<open>i\<close> is an argument of the model (\<open>True\<close> for the return value 0). \<open>lanzar\<close>
  is that loop: it stops at the first thread that cannot be created. The result
  \<open>despacho\<close> says which threads were created, which threads
  \<^verbatim>\<open>pthread_join\<close> has waited for when the function returns, and the index
  reported by \<^verbatim>\<open>Error al crear hilo\<close>. The source fixes
  \<^verbatim>\<open>numHilos = 2\<close>; \<open>ajustarBrilloConcurrenteN\<close> takes the number as an
  argument and \<open>ajustarBrilloConcurrente\<close> is the function of the source.
\<close>

definition filasPorHilo :: "int \<Rightarrow> int \<Rightarrow> int" where
  "filasPorHilo alto numHilos = \<lceil>real_of_int alto / real_of_int numHilos\<rceil>"

definition argsHilo :: "'p ImagenInfo \<Rightarrow> int \<Rightarrow> int \<Rightarrow> int \<Rightarrow> BrilloArgs" where
  "argsHilo info delta numHilos i =
     \<lparr>b_inicio = i * filasPorHilo (i_alto info) numHilos,
      b_fin = (if (i + 1) * filasPorHilo (i_alto info) numHilos < i_alto info
               then (i + 1) * filasPorHilo (i_alto info) numHilos else i_alto info),
      b_ancho = i_ancho info,
      b_canales = i_canales info,
      b_delta = delta\<rparr>"

fun lanzar :: "(int \<Rightarrow> bool) \<Rightarrow> (int \<Rightarrow> BrilloArgs) \<Rightarrow> int list \<Rightarrow> BrilloArgs list \<times> int option" where
  "lanzar pthread_create args [] = ([], None)"
| "lanzar pthread_create args (i # resto) =
     (if pthread_create i
      then (case lanzar pthread_create args resto of (hilos, r) \<Rightarrow> (args i # hilos, r))
      else ([], Some i))"

record despacho =
  creados :: "BrilloArgs list"
  unidos :: "int list"
  error_hilo :: "int option"

definition ajustarBrilloConcurrenteN ::
  "int \<Rightarrow> (int \<Rightarrow> bool) \<Rightarrow> matriz option ImagenInfo \<Rightarrow> int \<Rightarrow> despacho option" where
  "ajustarBrilloConcurrenteN numHilos pthread_create info delta =
     (case i_pixeles info of
        None \<Rightarrow> None
      | Some px \<Rightarrow>
          (case lanzar pthread_create (argsHilo info delta numHilos) [0..numHilos - 1] of
             (hilos, Some i) \<Rightarrow> Some \<lparr>creados = hilos, unidos = [], error_hilo = Some i\<rparr>
           | (hilos, None) \<Rightarrow>
               Some \<lparr>creados = hilos, unidos = [0..numHilos - 1], error_hilo = None\<rparr>))"

definition ajustarBrilloConcurrente ::
  "(int \<Rightarrow> bool) \<Rightarrow> matriz option ImagenInfo \<Rightarrow> int \<Rightarrow> despacho option" where
  "ajustarBrilloConcurrente = ajustarBrilloConcurrenteN 2"

text \<open>
  The created threads run concurrently. \<open>intercalado ts ss\<close> says that \<open>ss\<close> is
  an interleaving of the lists \<open>ts\<close>: every step takes the next action of some
  thread that still has one. The grid after all threads have finished is the result of
  \<open>bucle paso_brillo ss\<close> for some interleaving \<open>ss\<close> of their actions. No two
  actions of one dispatch touch the same sample, so taking the read and the store of an
  action as one step loses no behaviour.
\<close>

inductive intercalado :: "'a list list \<Rightarrow> 'a list \<Rightarrow> bool" where
  fin: "list_all (\<lambda>t. t = []) ts \<Longrightarrow> intercalado ts []"
| paso: "i < length ts \<Longrightarrow> ts ! i = a # t \<Longrightarrow> intercalado (ts[i := t]) ss
         \<Longrightarrow> intercalado ts (a # ss)"

text \<open>
  The reference the specification compares with: one thread applying
  \<open>clamp(sample + delta, 0, 255)\<close> to every channel of every pixel, row by row.
\<close>

definition brilloSecuencial :: "int \<Rightarrow> matriz \<Rightarrow> matriz" where
  "brilloSecuencial delta px =
     map (map (map (\<lambda>v. word_of_int (max 0 (min 255 (uint v + delta)))))) px"

section \<open>Storage\<close>

text \<open>
  The functions that allocate and release are modelled on an explicit store. An
  address is a natural number, 0 is \<^verbatim>\<open>NULL\<close>. A block is the list of its cells;
  a cell is uninitialised (\<open>Basura\<close>), a pointer, a sample or a \<^verbatim>\<open>float\<close>.
  Sizes are counted in cells: \<^verbatim>\<open>malloc(n * sizeof(T))\<close> is \<open>malloc n\<close>.
  \<open>bloques\<close> holds the live blocks and \<open>siguiente\<close> is the address the next
  block gets (addresses are not reused). Whether a call of \<^verbatim>\<open>malloc\<close> succeeds
  is decided by the environment: \<open>respuestas\<close> lists the outcomes of the coming
  calls, \<open>False\<close> for \<^verbatim>\<open>NULL\<close>; past the end of the list every call succeeds.

  \<^verbatim>\<open>free(NULL)\<close> does nothing; \<^verbatim>\<open>free\<close> of an address that is not a live
  block, a read or write outside a live block and the use of a cell that holds no
  pointer as a pointer are undefined behaviour: the operation returns \<open>None\<close>, and
  so does every function that runs into it.
\<close>

type_synonym dir = nat

datatype celda = Basura | Puntero dir | Muestra uchar | Flotante real

record memoria =
  bloques :: "dir \<rightharpoonup> celda list"
  siguiente :: dir
  respuestas :: "bool list"

definition malloc :: "nat \<Rightarrow> memoria \<Rightarrow> dir \<times> memoria" where
  "malloc n m =
     (case respuestas m of
        False # rs \<Rightarrow> (0, m\<lparr>respuestas := rs\<rparr>)
      | _ \<Rightarrow> (siguiente m,
              m\<lparr>bloques := (bloques m)(siguiente m \<mapsto> replicate n Basura),
                siguiente := Suc (siguiente m),
                respuestas := tl (respuestas m)\<rparr>))"

definition free :: "dir \<Rightarrow> memoria \<Rightarrow> memoria option" where
  "free p m =
     (if p = 0 then Some m
      else if bloques m p = None then None
      else Some (m\<lparr>bloques := (bloques m)(p := None)\<rparr>))"

definition cargar :: "dir \<Rightarrow> nat \<Rightarrow> memoria \<Rightarrow> dir option" where
  "cargar p i m =
     (case bloques m p of
        None \<Rightarrow> None
      | Some cs \<Rightarrow>
          if i < length cs then (case cs ! i of Puntero q \<Rightarrow> Some q | _ \<Rightarrow> None) else None)"

definition cargar_flotante :: "dir \<Rightarrow> nat \<Rightarrow> memoria \<Rightarrow> real option" where
  "cargar_flotante p i m =
     (case bloques m p of
        None \<Rightarrow> None
      | Some cs \<Rightarrow>
          if i < length cs then (case cs ! i of Flotante v \<Rightarrow> Some v | _ \<Rightarrow> None) else None)"

definition guardar :: "dir \<Rightarrow> nat \<Rightarrow> celda \<Rightarrow> memoria \<Rightarrow> memoria option" where
  "guardar p i v m =
     (case bloques m p of
        None \<Rightarrow> None
      | Some cs \<Rightarrow>
          if i < length cs then Some (m\<lparr>bloques := (bloques m)(p \<mapsto> cs[i := v])\<rparr>) else None)"

text \<open>
  \<open>mem_ok\<close>: no block lies at \<^verbatim>\<open>NULL\<close> or at an address that is still to be
  handed out. \<open>quitar A m\<close> is \<open>m\<close> without the blocks at the addresses \<open>A\<close>.
\<close>

definition mem_ok :: "memoria \<Rightarrow> bool" where
  "mem_ok m = (0 < siguiente m \<and> dom (bloques m) \<subseteq> {1..<siguiente m})"

definition quitar :: "dir set \<Rightarrow> memoria \<Rightarrow> memoria" where
  "quitar A m = m\<lparr>bloques := bloques m |` (- A)\<rparr>"

text \<open>
  The loops that release (lines 72-77, 88-90, 93-98 and 310-315 are the same two
  loops): \<open>liberar_pixeles matriz y xs\<close> is
  \<^verbatim>\<open>for x in xs: free(matriz[y][x])\<close> and \<open>liberar_filas matriz ys ancho\<close> is
  \<^verbatim>\<open>for y in ys: { for x < ancho: free(matriz[y][x]); free(matriz[y]); }\<close>. Every
  pointer is read from the store at the moment it is used, as in the source.
\<close>

definition liberar_pixeles :: "dir \<Rightarrow> nat \<Rightarrow> nat list \<Rightarrow> memoria \<Rightarrow> memoria option" where
  "liberar_pixeles matriz y xs m =
     bucle (\<lambda>m x. do { fila \<leftarrow> cargar matriz y m; p \<leftarrow> cargar fila x m; free p m }) xs m"

definition liberar_filas :: "dir \<Rightarrow> nat list \<Rightarrow> int \<Rightarrow> memoria \<Rightarrow> memoria option" where
  "liberar_filas matriz ys ancho m =
     bucle (\<lambda>m y. do {
               m1 \<leftarrow> liberar_pixeles matriz y [0..<nat ancho] m;
               fila \<leftarrow> cargar matriz y m1;
               free fila m1 }) ys m"

text \<open>
  \<^verbatim>\<open>asignarMatriz3D\<close>, lines 51-106. \<open>asignar_pixeles\<close> is the loop of lines
  83-102 up to the failure of a \<^verbatim>\<open>malloc\<close>: it returns the column \<open>x\<close> at which
  the allocation failed, or \<open>None\<close> when the row is complete. \<open>asignar_filas\<close> is
  the loop of lines 67-103 with both clean-up paths (lines 69-80 and 85-101); its
  result is \<open>False\<close> when it has cleaned up and the function returns \<^verbatim>\<open>NULL\<close>.
  The pointer is stored before it is tested, as in \<^verbatim>\<open>matriz[y] = malloc(...)\<close>.
\<close>

fun asignar_pixeles ::
  "dir \<Rightarrow> nat \<Rightarrow> int \<Rightarrow> nat list \<Rightarrow> memoria \<Rightarrow> (nat option \<times> memoria) option" where
  "asignar_pixeles matriz y canales [] m = Some (None, m)"
| "asignar_pixeles matriz y canales (x # xs) m =
     (case malloc (nat canales) m of
        (p, m1) \<Rightarrow> do {
          fila \<leftarrow> cargar matriz y m1;
          m2 \<leftarrow> guardar fila x (Puntero p) m1;
          if p = 0 then Some (Some x, m2)
          else asignar_pixeles matriz y canales xs m2 })"

fun asignar_filas ::
  "dir \<Rightarrow> int \<Rightarrow> int \<Rightarrow> nat list \<Rightarrow> memoria \<Rightarrow> (bool \<times> memoria) option" where
  "asignar_filas matriz ancho canales [] m = Some (True, m)"
| "asignar_filas matriz ancho canales (y # ys) m =
     (case malloc (nat ancho) m of
        (fila, m1) \<Rightarrow> do {
          m2 \<leftarrow> guardar matriz y (Puntero fila) m1;
          if fila = 0 then do {
            m3 \<leftarrow> liberar_filas matriz [0..<y] ancho m2;
            m4 \<leftarrow> free matriz m3;
            Some (False, m4) }
          else do {
            (r, m3) \<leftarrow> asignar_pixeles matriz y canales [0..<nat ancho] m2;
            case r of
              Some x \<Rightarrow> do {
                m4 \<leftarrow> liberar_pixeles matriz y [0..<x] m3;
                fila' \<leftarrow> cargar matriz y m4;
                m5 \<leftarrow> free fila' m4;
                m6 \<leftarrow> liberar_filas matriz [0..<y] ancho m5;
                m7 \<leftarrow> free matriz m6;
                Some (False, m7) }
            | None \<Rightarrow> asignar_filas matriz ancho canales ys m3 } })"

definition asignarMatriz3D ::
  "int \<Rightarrow> int \<Rightarrow> int \<Rightarrow> memoria \<Rightarrow> ((error + dir) \<times> memoria) option" where
  "asignarMatriz3D alto ancho canales m =
     (if alto \<le> 0 \<or> ancho \<le> 0 \<or> canales \<le> 0 then Some (Inl ParametrosInvalidos, m)
      else (case malloc (nat alto) m of
              (matriz, m1) \<Rightarrow>
                if matriz = 0 then Some (Inl ErrorDeMemoria, m1)
                else do {
                  (ok, m2) \<leftarrow> asignar_filas matriz ancho canales [0..<nat alto] m1;
                  Some (if ok then Inr matriz else Inl ErrorDeMemoria, m2) }))"

text \<open>
  What a caller can observe of a grid at address \<open>matriz\<close>, read from the store:
  \<open>estructura\<close> gives the row pointers held by the block at \<open>matriz\<close> and, for
  each row, the pixel pointers held by the row's block; \<open>direcciones\<close> lists the
  addresses of the grid, level by level in the order of allocation; and
  \<open>matriz_asignada\<close> says that the grid is complete: \<open>alto\<close> rows of \<open>ancho\<close>
  pixels, every pixel a live block of \<open>canales\<close> cells, all blocks different and
  none at \<^verbatim>\<open>NULL\<close>.
\<close>

definition puntero_de :: "celda \<Rightarrow> dir option" where
  "puntero_de c = (case c of Puntero q \<Rightarrow> Some q | _ \<Rightarrow> None)"

definition punteros :: "memoria \<Rightarrow> dir \<Rightarrow> dir list option" where
  "punteros m p = (case bloques m p of None \<Rightarrow> None | Some cs \<Rightarrow> those (map puntero_de cs))"

definition estructura :: "memoria \<Rightarrow> dir \<Rightarrow> (dir list \<times> dir list list) option" where
  "estructura m matriz =
     (case punteros m matriz of
        None \<Rightarrow> None
      | Some filas \<Rightarrow> map_option (Pair filas) (those (map (punteros m) filas)))"

definition direcciones :: "memoria \<Rightarrow> dir \<Rightarrow> dir list" where
  "direcciones m matriz =
     (if matriz = 0 then []
      else (case estructura m matriz of
              None \<Rightarrow> []
            | Some (filas, pix) \<Rightarrow> matriz # concat (map2 (#) filas pix)))"

definition matriz_asignada :: "memoria \<Rightarrow> dir \<Rightarrow> int \<Rightarrow> int \<Rightarrow> int \<Rightarrow> bool" where
  "matriz_asignada m matriz alto ancho canales =
     (matriz \<noteq> 0
      \<and> (case estructura m matriz of
            None \<Rightarrow> False
          | Some (filas, pix) \<Rightarrow>
              int (length filas) = alto
              \<and> list_all (\<lambda>ps. int (length ps) = ancho
                    \<and> list_all (\<lambda>p. case bloques m p of
                                       None \<Rightarrow> False
                                     | Some cs \<Rightarrow> int (length cs) = canales) ps) pix
              \<and> distinct (direcciones m matriz)
              \<and> 0 \<notin> set (direcciones m matriz)))"

text \<open>
  The blocks \<^verbatim>\<open>asignarMatriz3D\<close> has allocated so far lie at consecutive
  addresses: the array of rows at \<open>matriz\<close>, row \<open>y\<close> at \<open>dir_fila matriz w y\<close>,
  followed by its \<open>w\<close> pixels. \<open>fila_lista m fila w k x1\<close>: the row at \<open>fila\<close>
  has its first \<open>x1\<close> pixels; \<open>filas_listas m matriz h w k y0\<close>: the first \<open>y0\<close>
  rows are complete. These are the loop invariants of the proofs below.
\<close>

definition fila_lista :: "memoria \<Rightarrow> dir \<Rightarrow> nat \<Rightarrow> nat \<Rightarrow> nat \<Rightarrow> bool" where
  "fila_lista m fila w k x1 =
     ((\<exists>fcs. bloques m fila = Some fcs \<and> length fcs = w
             \<and> (\<forall>x<x1. fcs ! x = Puntero (fila + 1 + x)))
      \<and> (\<forall>x<x1. bloques m (fila + 1 + x) = Some (replicate k Basura)))"

definition dir_fila :: "dir \<Rightarrow> nat \<Rightarrow> nat \<Rightarrow> dir" where
  "dir_fila matriz w y = matriz + 1 + y * (w + 1)"

definition filas_listas :: "memoria \<Rightarrow> dir \<Rightarrow> nat \<Rightarrow> nat \<Rightarrow> nat \<Rightarrow> nat \<Rightarrow> bool" where
  "filas_listas m matriz h w k y0 =
     ((\<exists>mcs. bloques m matriz = Some mcs \<and> length mcs = h
             \<and> (\<forall>y<y0. mcs ! y = Puntero (dir_fila matriz w y)))
      \<and> (\<forall>y<y0. fila_lista m (dir_fila matriz w y) w k w))"

text \<open>
  \<^verbatim>\<open>liberarImagen\<close>, lines 308-322, on an \<^verbatim>\<open>ImagenInfo\<close> whose field
  \<^verbatim>\<open>pixeles\<close> is an address. \<open>imagen_vacia\<close> is the state
  \<^verbatim>\<open>{0, 0, 0, NULL}\<close> the program starts with (line 531).
\<close>

definition liberarImagen :: "dir ImagenInfo \<Rightarrow> memoria \<Rightarrow> (dir ImagenInfo \<times> memoria) option" where
  "liberarImagen info m = do {
     m' \<leftarrow> (if i_pixeles info \<noteq> 0
            then do {
              m1 \<leftarrow> liberar_filas (i_pixeles info) [0..<nat (i_alto info)] (i_ancho info) m;
              free (i_pixeles info) m1 }
            else Some m);
     Some (info\<lparr>i_pixeles := 0, i_ancho := 0, i_alto := 0, i_canales := 0\<rparr>, m') }"

definition imagen_vacia :: "dir ImagenInfo" where
  "imagen_vacia = \<lparr>i_ancho = 0, i_alto = 0, i_canales = 0, i_pixeles = 0\<rparr>"

text \<open>
  \<^verbatim>\<open>generarKernelGaussiano\<close>, lines 233-302, with \<^verbatim>\<open>float\<close> arithmetic
  taken as arithmetic on real numbers: rounding, and the underflow and overflow of the
  taps for an extreme \<^verbatim>\<open>sigma\<close>, are outside the model, and the statements below
  are about the guards and the store only. \<open>asignar_filas_kernel\<close> is the loop of lines
  254-265 with its clean-up, \<open>valor_gaussiano\<close> the tap of lines 271-283,
  \<open>llenar_kernel\<close> the loop nest of lines 279-289 (it returns the sum of the taps)
  and \<open>normalizar_kernel\<close> the loop nest of lines 294-298. The local variable
  \<^verbatim>\<open>kernel\<close> is written \<open>kernel'\<close>.
\<close>

fun asignar_filas_kernel ::
  "dir \<Rightarrow> int \<Rightarrow> nat list \<Rightarrow> memoria \<Rightarrow> (bool \<times> memoria) option" where
  "asignar_filas_kernel kernel' tamKernel [] m = Some (True, m)"
| "asignar_filas_kernel kernel' tamKernel (i # resto) m =
     (case malloc (nat tamKernel) m of
        (fila, m1) \<Rightarrow> do {
          m2 \<leftarrow> guardar kernel' i (Puntero fila) m1;
          if fila = 0 then do {
            m3 \<leftarrow> bucle (\<lambda>m j. do { f \<leftarrow> cargar kernel' j m; free f m }) [0..<i] m2;
            m4 \<leftarrow> free kernel' m3;
            Some (False, m4) }
          else asignar_filas_kernel kernel' tamKernel resto m2 })"

definition valor_gaussiano :: "real \<Rightarrow> int \<Rightarrow> int \<Rightarrow> real" where
  "valor_gaussiano sigma kx ky =
     (let constante = 1 / (2 * pi * sigma * sigma);
          denominador = 2 * sigma * sigma;
          exponente = real_of_int (- (kx * kx + ky * ky)) / denominador
      in constante * exp exponente)"

definition llenar_kernel :: "dir \<Rightarrow> int \<Rightarrow> real \<Rightarrow> memoria \<Rightarrow> (real \<times> memoria) option" where
  "llenar_kernel kernel' offset sigma m =
     bucle (\<lambda>(suma, m) (ky, kx). do {
              fila \<leftarrow> cargar kernel' (nat (ky + offset)) m;
              m' \<leftarrow> guardar fila (nat (kx + offset)) (Flotante (valor_gaussiano sigma kx ky)) m;
              Some (suma + valor_gaussiano sigma kx ky, m') })
       [(ky, kx). ky \<leftarrow> [- offset..offset], kx \<leftarrow> [- offset..offset]] (0, m)"

definition normalizar_kernel :: "dir \<Rightarrow> int \<Rightarrow> real \<Rightarrow> memoria \<Rightarrow> memoria option" where
  "normalizar_kernel kernel' tamKernel suma m =
     bucle (\<lambda>m (i, j). do {
              fila \<leftarrow> cargar kernel' i m;
              v \<leftarrow> cargar_flotante fila j m;
              guardar fila j (Flotante (v / suma)) m })
       [(i, j). i \<leftarrow> [0..<nat tamKernel], j \<leftarrow> [0..<nat tamKernel]] m"

definition generarKernelGaussiano ::
  "int \<Rightarrow> real \<Rightarrow> memoria \<Rightarrow> ((error + dir) \<times> memoria) option" where
  "generarKernelGaussiano tamKernel sigma m =
     (if tamKernel \<le> 0 \<or> tamKernel mod 2 = 0 then Some (Inl TamKernelInvalido, m)
      else if sigma \<le> 0 then Some (Inl SigmaInvalido, m)
      else (case malloc (nat tamKernel) m of
              (kernel', m1) \<Rightarrow>
                if kernel' = 0 then Some (Inl ErrorDeMemoria, m1)
                else do {
                  (ok, m2) \<leftarrow> asignar_filas_kernel kernel' tamKernel [0..<nat tamKernel] m1;
                  if \<not> ok then Some (Inl ErrorDeMemoria, m2)
                  else do {
                    (suma, m3) \<leftarrow> llenar_kernel kernel' (tamKernel div 2) sigma m2;
                    m4 \<leftarrow> (if suma > 0 then normalizar_kernel kernel' tamKernel suma m3
                           else Some m3);
                    Some (Inr kernel', m4) } }))"

text \<open>
  A store with one \<open>1 \<times> 1\<close> grayscale grid at address 1, for the examples.
\<close>

definition mem_ejemplo :: memoria where
  "mem_ejemplo = \<lparr>bloques = [1 \<mapsto> [Puntero 2], 2 \<mapsto> [Puntero 3], 3 \<mapsto> [Muestra 7]],
                  siguiente = 4, respuestas = []\<rparr>"

section \<open>Properties of the interpolation\<close>

lemma forma_fila:
  assumes "forma img alto ancho canales" "0 \<le> y" "y < alto"
  shows "int (length (img ! nat y)) = ancho"
  using assms by (auto simp: forma_def list_all_length)

lemma forma_pixel:
  assumes "forma img alto ancho canales" "0 \<le> y" "y < alto" "0 \<le> x" "x < ancho"
  shows "int (length (img ! nat y ! nat x)) = canales"
proof -
  have fila: "int (length (img ! nat y)) = ancho"
    using assms by (rule_tac forma_fila)
  have "nat y < length img"
    using assms by (auto simp: forma_def)
  then have "list_all (\<lambda>p. int (length p) = canales) (img ! nat y)"
    using assms(1) by (auto simp: forma_def list_all_length)
  moreover have "nat x < length (img ! nat y)"
    using fila assms by linarith
  ultimately show ?thesis
    by (simp add: list_all_length)
qed

lemma leer_dentro:
  assumes "forma img alto ancho canales"
    and "0 \<le> y" "y < alto" "0 \<le> x" "x < ancho" "0 \<le> c" "c < canales"
  shows "leer img y x c = Some (img ! nat y ! nat x ! nat c)"
proof -
  have "int (length img) = alto"
    using assms(1) by (simp add: forma_def)
  moreover have "int (length (img ! nat y)) = ancho"
    using assms by (rule_tac forma_fila)
  moreover have "int (length (img ! nat y ! nat x)) = canales"
    using assms by (rule_tac forma_pixel)
  ultimately show ?thesis
    using assms by (simp add: leer_def nivel_def)
qed

lemma a_uchar_muestra: "a_uchar (a_float v + 1 / 2) = Inr v"
proof -
  define n where "n = unat v"
  have piso: "\<lfloor>real n + 1 / 2\<rfloor> = int n"
    by (rule floor_unique) simp_all
  have "n < 2 ^ LENGTH(8)"
    unfolding n_def by (rule unsigned_less)
  then have cota: "int n \<le> 255"
    by simp
  have vuelta: "(word_of_int (int n) :: uchar) = v"
    by (simp add: n_def)
  have "a_uchar (real n + 1 / 2) = Inr v"
    unfolding a_uchar_def Let_def piso using cota vuelta by simp
  then show ?thesis
    by (simp add: a_float_def n_def)
qed

lemma esquinas_entero:
  assumes "0 \<le> x" "x < ancho" "0 \<le> y" "y < alto"
  shows "esquinas (real_of_int x) (real_of_int y) ancho alto =
           (x, y, if x + 1 \<ge> ancho then ancho - 1 else x + 1,
                  if y + 1 \<ge> alto then alto - 1 else y + 1)"
  using assms by (simp add: esquinas_def Let_def)

text \<open>
  Claim C6. On a grid of \<open>alto \<times> ancho \<times> canales\<close> samples, at an integer
  coordinate \<open>(x, y)\<close> inside the grid and a channel \<open>c\<close> of the grid, the
  interpolation returns exactly the stored sample \<open>img[y][x][c]\<close>: both weights
  are 0, only \<open>v00\<close> contributes, and adding one half and truncating gives the sample
  back.
\<close>

theorem bilineal_en_punto_entero:
  assumes "forma img alto ancho canales"
    and "0 \<le> x" "x < ancho" "0 \<le> y" "y < alto" "0 \<le> c" "c < canales"
  shows "\<exists>v. leer img y x c = Some v
             \<and> interpolacionBilineal img (real_of_int x) (real_of_int y) c ancho alto = Inr v"
proof -
  define x1 where "x1 = (if x + 1 \<ge> ancho then ancho - 1 else x + 1)"
  define y1 where "y1 = (if y + 1 \<ge> alto then alto - 1 else y + 1)"
  have x1: "0 \<le> x1" "x1 < ancho" and y1: "0 \<le> y1" "y1 < alto"
    using assms by (auto simp: x1_def y1_def)
  have esq: "esquinas (real_of_int x) (real_of_int y) ancho alto = (x, y, x1, y1)"
    using assms by (simp add: esquinas_entero x1_def y1_def)
  have v00: "leer img y x c = Some (img ! nat y ! nat x ! nat c)"
    using assms by (rule_tac leer_dentro)
  have v10: "leer img y x1 c = Some (img ! nat y ! nat x1 ! nat c)"
    using assms x1 by (rule_tac leer_dentro)
  have v01: "leer img y1 x c = Some (img ! nat y1 ! nat x ! nat c)"
    using assms y1 by (rule_tac leer_dentro)
  have v11: "leer img y1 x1 c = Some (img ! nat y1 ! nat x1 ! nat c)"
    using assms x1 y1 by (rule_tac leer_dentro)
  have "interpolacionBilineal img (real_of_int x) (real_of_int y) c ancho alto
          = Inr (img ! nat y ! nat x ! nat c)"
    by (simp add: interpolacionBilineal_def esq v00 v10 v01 v11 a_uchar_muestra)
  then show ?thesis
    using v00 by simp
qed

theorem bilineal_en_punto_entero_testigo:
  "leer [[[10], [20]], [[30], [40]]] 0 1 0 = Some 20
   \<and> interpolacionBilineal [[[10], [20]], [[30], [40]]] 1 0 0 2 2 = Inr 20"
proof -
  have f: "forma [[[10], [20]], [[30], [40]]] 2 2 1"
    by (simp add: forma_def)
  have l: "leer [[[10], [20]], [[30], [40]]] 0 1 0 = Some 20"
    by (simp add: leer_def nivel_def)
  show ?thesis
    using bilineal_en_punto_entero [OF f, of 1 0 0] l by simp
qed

text \<open>
  The clamping does protect the reads for coordinates from one pixel before the first
  column and row up to the last ones: there the four corners are inside the grid and
  the interpolation reads only stored samples.
\<close>

lemma esquinas_borde:
  assumes "- 1 \<le> x" "x < real_of_int ancho" "- 1 \<le> y" "y < real_of_int alto"
    and "0 < ancho" "0 < alto"
  shows "case esquinas x y ancho alto of
           (x0, y0, x1, y1) \<Rightarrow> 0 \<le> x0 \<and> x0 < ancho \<and> 0 \<le> x1 \<and> x1 < ancho
                               \<and> 0 \<le> y0 \<and> y0 < alto \<and> 0 \<le> y1 \<and> y1 < alto"
proof -
  have fx: "- 1 \<le> \<lfloor>x\<rfloor>" "\<lfloor>x\<rfloor> < ancho"
    using assms(1,2) by (simp_all add: le_floor_iff floor_less_iff)
  have fy: "- 1 \<le> \<lfloor>y\<rfloor>" "\<lfloor>y\<rfloor> < alto"
    using assms(3,4) by (simp_all add: le_floor_iff floor_less_iff)
  show ?thesis
    using fx fy assms(5,6) by (simp add: esquinas_def Let_def)
qed

lemma bilineal_cerca_del_borde:
  assumes "forma img alto ancho canales" "0 \<le> c" "c < canales" "0 < ancho" "0 < alto"
    and "- 1 \<le> x" "x < real_of_int ancho" "- 1 \<le> y" "y < real_of_int alto"
  shows "interpolacionBilineal img x y c ancho alto \<noteq> Inl AccesoFueraDeLimites"
proof -
  obtain x0 y0 x1 y1 where e: "esquinas x y ancho alto = (x0, y0, x1, y1)"
    by (cases "esquinas x y ancho alto") auto
  have r: "0 \<le> x0" "x0 < ancho" "0 \<le> x1" "x1 < ancho"
    "0 \<le> y0" "y0 < alto" "0 \<le> y1" "y1 < alto"
    using esquinas_borde [OF assms(6-9) assms(4,5)] e by simp_all
  have l: "leer img y0 x0 c = Some (img ! nat y0 ! nat x0 ! nat c)"
    "leer img y0 x1 c = Some (img ! nat y0 ! nat x1 ! nat c)"
    "leer img y1 x0 c = Some (img ! nat y1 ! nat x0 ! nat c)"
    "leer img y1 x1 c = Some (img ! nat y1 ! nat x1 ! nat c)"
    using assms(1-3) r by (simp_all add: leer_dentro)
  show ?thesis
    by (simp add: interpolacionBilineal_def e l a_uchar_def Let_def)
qed

text \<open>
  Claim C1 says that all four corner indices are clamped into the grid and that only
  in-bounds pixels are read, for every real coordinate. The code clamps \<open>x0\<close>,
  \<open>y0\<close> only from below and \<open>x1\<close>, \<open>y1\<close> only from above. On the
  \<open>1 \<times> 1\<close> grayscale grid, at \<open>x = 2\<close>, \<open>y = 0\<close>, the corner \<open>x0\<close> stays 2 while
  the only column is 0, and the read \<^verbatim>\<open>img[y0][x0][c]\<close> is outside the row.
\<close>

theorem bilineal_fuera_de_limites:
  "esquinas 2 0 1 1 = (2, 0, 0, 0)
   \<and> forma [[[7]]] 1 1 1
   \<and> leer [[[7]]] 0 2 0 = None
   \<and> interpolacionBilineal [[[7]]] 2 0 0 1 1 = Inl AccesoFueraDeLimites"
  by (simp add: esquinas_def forma_def leer_def nivel_def interpolacionBilineal_def)

section \<open>Properties of loading and saving\<close>

lemma those_map_Some:
  "(\<And>x. x \<in> set xs \<Longrightarrow> g x = Some (h x)) \<Longrightarrow> those (map g xs) = Some (map h xs)"
  by (induction xs) simp_all

lemma indice_cota:
  fixes y x c alto ancho canales :: int
  assumes "0 \<le> y" "y < alto" "0 \<le> x" "x < ancho" "0 \<le> c" "c < canales"
  shows "0 \<le> (y * ancho + x) * canales + c" "(y * ancho + x) * canales + c < alto * ancho * canales"
proof -
  show "0 \<le> (y * ancho + x) * canales + c"
    using assms by simp
  have "y * ancho + x + 1 \<le> y * ancho + ancho"
    using assms by simp
  also have "\<dots> = (y + 1) * ancho"
    by (simp add: algebra_simps)
  also have "\<dots> \<le> alto * ancho"
    using assms by (intro mult_right_mono) simp_all
  finally have "(y * ancho + x + 1) * canales \<le> alto * ancho * canales"
    using assms by (intro mult_right_mono) simp_all
  then show "(y * ancho + x) * canales + c < alto * ancho * canales"
    using assms by (simp add: algebra_simps)
qed

lemma upto_pegar:
  assumes "i \<le> j + 1" "j \<le> k"
  shows "[i..j] @ [j + 1..k] = [i..k]"
proof (cases "i \<le> j")
  case True
  then show ?thesis
    using assms upto_split2 [of i j k] by simp
next
  case False
  then have "i = j + 1"
    using assms by simp
  then show ?thesis
    by simp
qed

lemma rango_concat:
  fixes a k :: int
  assumes "0 \<le> k"
  shows "concat (map (\<lambda>i. [a + i * k..a + (i + 1) * k - 1]) [0..int n - 1]) = [a..a + int n * k - 1]"
proof (induction n)
  case 0
  then show ?case by simp
next
  case (Suc n)
  have ult: "[0..int (Suc n) - 1] = [0..int n - 1] @ [int n]"
    using upto_rec2 [of 0 "int n"] by simp
  have "0 \<le> int n * k"
    using assms by simp
  then have "[a..a + int n * k - 1] @ [a + int n * k - 1 + 1..a + (int n + 1) * k - 1]
               = [a..a + (int n + 1) * k - 1]"
    using assms by (intro upto_pegar) (simp_all add: algebra_simps)
  then have "[a..a + int n * k - 1] @ [a + int n * k..a + (int n + 1) * k - 1]
               = [a..a + int (Suc n) * k - 1]"
    by (simp add: algebra_simps)
  then show ?case
    using Suc.IH ult by simp
qed


lemma copiar_matriz_ok:
  assumes "alto * ancho * canales \<le> int (length datos)"
  shows "copiar_matriz datos alto ancho canales = Some (matriz_de datos alto ancho canales)"
proof -
  have dato: "leer_dato datos ((y * ancho + x) * canales + c)
                = Some (datos ! nat ((y * ancho + x) * canales + c))"
    if "y \<in> set [0..alto - 1]" "x \<in> set [0..ancho - 1]" "c \<in> set [0..canales - 1]" for y x c
  proof -
    have "0 \<le> (y * ancho + x) * canales + c" "(y * ancho + x) * canales + c < alto * ancho * canales"
      using that by (simp_all add: indice_cota)
    then show ?thesis
      using assms by (simp add: leer_dato_def)
  qed
  have pixel: "copiar_pixel datos ancho canales y x
                 = Some (map (\<lambda>c. datos ! nat ((y * ancho + x) * canales + c)) [0..canales - 1])"
    if "y \<in> set [0..alto - 1]" "x \<in> set [0..ancho - 1]" for y x
    unfolding copiar_pixel_def using that by (intro those_map_Some dato)
  have fila: "copiar_fila datos ancho canales y
                = Some (map (\<lambda>x. map (\<lambda>c. datos ! nat ((y * ancho + x) * canales + c)) [0..canales - 1])
                         [0..ancho - 1])"
    if "y \<in> set [0..alto - 1]" for y
    unfolding copiar_fila_def using that by (intro those_map_Some pixel)
  show ?thesis
    unfolding copiar_matriz_def matriz_de_def by (intro those_map_Some fila)
qed

lemma forma_matriz_de:
  assumes "0 \<le> alto" "0 \<le> ancho" "0 \<le> canales"
  shows "forma (matriz_de datos alto ancho canales) alto ancho canales"
  using assms by (simp add: forma_def matriz_de_def list_all_iff)

lemma leer_matriz_de:
  assumes "0 \<le> y" "y < alto" "0 \<le> x" "x < ancho" "0 \<le> c" "c < canales"
  shows "leer (matriz_de datos alto ancho canales) y x c
           = Some (datos ! nat ((y * ancho + x) * canales + c))"
proof -
  have "leer (matriz_de datos alto ancho canales) y x c
          = Some (matriz_de datos alto ancho canales ! nat y ! nat x ! nat c)"
    using assms forma_matriz_de [of alto ancho canales datos] by (intro leer_dentro) simp_all
  moreover have "matriz_de datos alto ancho canales ! nat y ! nat x ! nat c
                   = datos ! nat ((y * ancho + x) * canales + c)"
    using assms by (simp add: matriz_de_def)
  ultimately show ?thesis
    by simp
qed


lemma bucle_cong:
  "(\<And>a s. a \<in> set as \<Longrightarrow> f s a = g s a) \<Longrightarrow> bucle f as s = bucle g as s"
  by (induction as arbitrary: s) (simp_all split: option.splits)

lemma bucle_map: "bucle f (map h as) s = bucle (\<lambda>s a. f s (h a)) as s"
  by (induction as arbitrary: s) (simp_all split: option.splits)

lemma map_suma_upto: "map (\<lambda>c. b + c) [0..k - 1] = [b..b + k - 1]"
proof (rule nth_equalityI)
  show "length (map (\<lambda>c. b + c) [0..k - 1]) = length [b..b + k - 1]"
    by simp
next
  fix i assume "i < length (map (\<lambda>c. b + c) [0..k - 1])"
  then have "int i \<le> k - 1"
    by simp
  then show "map (\<lambda>c. b + c) [0..k - 1] ! i = [b..b + k - 1] ! i"
    by simp
qed

lemma indices_en_orden:
  assumes "0 \<le> alto" "0 \<le> ancho" "0 \<le> canales"
  shows "map (\<lambda>(y, x, c). (y * ancho + x) * canales + c) (indices 0 alto ancho canales)
           = [0..alto * ancho * canales - 1]"
proof -
  have fila: "concat (map (\<lambda>x. map (\<lambda>c. (y * ancho + x) * canales + c) [0..canales - 1]) [0..ancho - 1])
                = [y * (ancho * canales)..y * (ancho * canales) + ancho * canales - 1]" for y
  proof -
    have "map (\<lambda>c. (y * ancho + x) * canales + c) [0..canales - 1]
            = [y * (ancho * canales) + x * canales..y * (ancho * canales) + (x + 1) * canales - 1]" for x
      using map_suma_upto [of "(y * ancho + x) * canales" canales] by (simp add: algebra_simps)
    moreover have "[0..ancho - 1] = [0..int (nat ancho) - 1]"
      using assms by simp
    ultimately show ?thesis
      using rango_concat [of canales "y * (ancho * canales)" "nat ancho"] assms by simp
  qed
  have "map (\<lambda>(y, x, c). (y * ancho + x) * canales + c) (indices 0 alto ancho canales)
          = concat (map (\<lambda>y. concat (map (\<lambda>x. map (\<lambda>c. (y * ancho + x) * canales + c) [0..canales - 1])
                                          [0..ancho - 1])) [0..alto - 1])"
    by (simp add: indices_def map_concat comp_def)
  also have "\<dots> = concat (map (\<lambda>y. [y * (ancho * canales)..y * (ancho * canales) + ancho * canales - 1])
                          [0..alto - 1])"
    by (simp only: fila)
  also have "\<dots> = concat (map (\<lambda>y. [0 + y * (ancho * canales)..0 + (y + 1) * (ancho * canales) - 1])
                          [0..int (nat alto) - 1])"
    using assms by (simp add: algebra_simps)
  also have "\<dots> = [0..0 + int (nat alto) * (ancho * canales) - 1]"
    using assms by (intro rango_concat) simp
  finally show ?thesis
    using assms by (simp add: algebra_simps)
qed

lemma llenar_en_orden:
  assumes "n \<le> length datos" "m \<le> n"
  shows "bucle (\<lambda>buf k. escribir_dato buf k (datos ! nat k)) [int m..int n - 1]
           (map Some (take m datos) @ replicate (n - m) None) = Some (map Some (take n datos))"
  using assms
proof (induction "n - m" arbitrary: m)
  case 0
  then show ?case by simp
next
  case (Suc d)
  then have m: "m < n" "m < length datos"
    by simp_all
  have lista: "[int m..int n - 1] = int m # [int (Suc m)..int n - 1]"
    using m upto_rec1 [of "int m" "int n - 1"] by (simp add: add.commute)
  have rep: "replicate (n - m) (None :: uchar option) = None # replicate (n - Suc m) None"
    using m by (metis Suc_diff_Suc replicate_Suc)
  have paso: "escribir_dato (map Some (take m datos) @ replicate (n - m) None) (int m) (datos ! m)
                = Some (map Some (take (Suc m) datos) @ replicate (n - Suc m) None)"
    using m by (simp add: escribir_dato_def rep list_update_append take_Suc_conv_app_nth)
  have "bucle (\<lambda>buf k. escribir_dato buf k (datos ! nat k)) [int (Suc m)..int n - 1]
          (map Some (take (Suc m) datos) @ replicate (n - Suc m) None) = Some (map Some (take n datos))"
    using Suc m by (intro Suc.hyps(1)) simp_all
  then show ?case
    by (simp add: lista paso)
qed


lemma set_indices:
  "set (indices inicio fin ancho canales)
     = {(y, x, c). inicio \<le> y \<and> y < fin \<and> 0 \<le> x \<and> x < ancho \<and> 0 \<le> c \<and> c < canales}"
  by (fastforce simp: indices_def image_iff)

lemma aplanar_matriz_de:
  assumes "0 \<le> alto" "0 \<le> ancho" "0 \<le> canales"
    and "alto * ancho * canales \<le> int (length datos)"
  shows "bucle (paso_aplanar (matriz_de datos alto ancho canales) ancho canales)
           (indices 0 alto ancho canales) (replicate (nat (ancho * alto * canales)) None)
         = Some (map Some (take (nat (alto * ancho * canales)) datos))"
proof -
  define n where "n = nat (alto * ancho * canales)"
  define g where "g = (\<lambda>buf k. escribir_dato buf k (datos ! nat k))"
  define idx where "idx = (\<lambda>(y, x, c). (y * ancho + x) * canales + c)"
  have n: "int n = alto * ancho * canales" "n \<le> length datos"
    using assms by (simp_all add: n_def)
  have "bucle (paso_aplanar (matriz_de datos alto ancho canales) ancho canales)
          (indices 0 alto ancho canales) buf
        = bucle (\<lambda>buf t. g buf (idx t)) (indices 0 alto ancho canales) buf" for buf
  proof (rule bucle_cong)
    fix t buf assume "t \<in> set (indices 0 alto ancho canales)"
    then obtain y x c where t: "t = (y, x, c)"
      and "0 \<le> y" "y < alto" "0 \<le> x" "x < ancho" "0 \<le> c" "c < canales"
      by (auto simp: set_indices)
    then have "leer (matriz_de datos alto ancho canales) y x c
                 = Some (datos ! nat ((y * ancho + x) * canales + c))"
      by (intro leer_matriz_de)
    then show "paso_aplanar (matriz_de datos alto ancho canales) ancho canales buf t = g buf (idx t)"
      by (simp add: paso_aplanar_def t g_def idx_def)
  qed
  also have "bucle (\<lambda>buf t. g buf (idx t)) (indices 0 alto ancho canales) buf
               = bucle g (map idx (indices 0 alto ancho canales)) buf" for buf
    by (simp add: bucle_map)
  also have "map idx (indices 0 alto ancho canales) = [int 0..int n - 1]"
    unfolding idx_def using assms n by (simp add: indices_en_orden)
  finally have "bucle (paso_aplanar (matriz_de datos alto ancho canales) ancho canales)
                  (indices 0 alto ancho canales) (map Some (take 0 datos) @ replicate (n - 0) None)
                = bucle g [int 0..int n - 1] (map Some (take 0 datos) @ replicate (n - 0) None)" .
  also have "\<dots> = Some (map Some (take n datos))"
    unfolding g_def using n by (intro llenar_en_orden) simp_all
  finally show ?thesis
    by (simp add: n_def mult.commute mult.left_commute)
qed

text \<open>
  Claim C5. For positive width and height, 1 or 3 channels and a buffer of
  \<open>alto * ancho * canales\<close> samples, loading succeeds (given storage) and flattening
  the loaded grid gives back the buffer: every cell of the flat buffer is written, with
  the sample of the input at the same position.
\<close>

theorem cargar_y_aplanar:
  assumes "0 < ancho" "0 < alto" "canales = 1 \<or> canales = 3"
    and "int (length datos) = alto * ancho * canales"
  shows "\<exists>info. cargarImagen (Some (datos, ancho, alto, canales)) True = Inr info
                \<and> aplanar info True = Inr (map Some datos)"
proof -
  define info where "info = \<lparr>i_ancho = ancho, i_alto = alto, i_canales = canales,
                              i_pixeles = Some (matriz_de datos alto ancho canales)\<rparr>"
  have "copiar_matriz datos alto ancho canales = Some (matriz_de datos alto ancho canales)"
    using assms by (intro copiar_matriz_ok) simp
  then have cargar: "cargarImagen (Some (datos, ancho, alto, canales)) True = Inr info"
    using assms(3) by (auto simp: cargarImagen_def info_def)
  have "bucle (paso_aplanar (matriz_de datos alto ancho canales) ancho canales)
          (indices 0 alto ancho canales) (replicate (nat (ancho * alto * canales)) None)
        = Some (map Some (take (nat (alto * ancho * canales)) datos))"
    using assms by (intro aplanar_matriz_de) auto
  moreover have "take (nat (alto * ancho * canales)) datos = datos"
    using assms(4) by simp
  ultimately have "aplanar info True = Inr (map Some datos)"
    by (simp add: aplanar_def info_def)
  with cargar show ?thesis
    by blast
qed

theorem cargar_y_aplanar_testigo:
  "\<exists>info. cargarImagen (Some ([1, 2, 3, 4, 5, 6], 1, 2, 3)) True = Inr info
          \<and> aplanar info True = Inr (map Some [1, 2, 3, 4, 5, 6])"
  using cargar_y_aplanar [of 1 2 3 "[1, 2, 3, 4, 5, 6]"] by simp

text \<open>
  Claim C10. When the decoder reports a channel count \<open>n\<close> other than 1 and 3
  for its buffer of \<open>alto * ancho * n\<close> samples, the loaded image has one channel
  and its sample at row \<open>y\<close>, column \<open>x\<close> is the byte \<open>y * ancho + x\<close> of the buffer:
  the buffer is read with stride 1.
\<close>

theorem canales_forzados_a_uno:
  assumes "n \<noteq> 1" "n \<noteq> 3" "0 < n"
    and "int (length datos) = alto * ancho * n"
  shows "\<exists>px. cargarImagen (Some (datos, ancho, alto, n)) True
                = Inr \<lparr>i_ancho = ancho, i_alto = alto, i_canales = 1, i_pixeles = Some px\<rparr>
              \<and> (\<forall>y x. 0 \<le> y \<and> y < alto \<and> 0 \<le> x \<and> x < ancho
                     \<longrightarrow> leer px y x 0 = Some (datos ! nat (y * ancho + x)))"
proof -
  have "0 \<le> alto * ancho * n"
    using assms(4) by (metis of_nat_0_le_iff)
  then have "0 \<le> alto * ancho"
    using assms(3) by (simp add: zero_le_mult_iff)
  then have "alto * ancho * 1 \<le> alto * ancho * n"
    using assms(3) by (intro mult_left_mono) simp_all
  then have "copiar_matriz datos alto ancho 1 = Some (matriz_de datos alto ancho 1)"
    using assms(4) by (intro copiar_matriz_ok) simp
  then have "cargarImagen (Some (datos, ancho, alto, n)) True
               = Inr \<lparr>i_ancho = ancho, i_alto = alto, i_canales = 1,
                      i_pixeles = Some (matriz_de datos alto ancho 1)\<rparr>"
    using assms(1,2) by (simp add: cargarImagen_def)
  moreover have "leer (matriz_de datos alto ancho 1) y x 0 = Some (datos ! nat (y * ancho + x))"
    if "0 \<le> y \<and> y < alto \<and> 0 \<le> x \<and> x < ancho" for y x
    using that leer_matriz_de [of y alto x ancho 0 1 datos] by simp
  ultimately show ?thesis
    by blast
qed

theorem canales_forzados_a_uno_testigo:
  "\<exists>px. cargarImagen (Some ([10, 11, 20, 21], 2, 1, 2)) True
          = Inr \<lparr>i_ancho = 2, i_alto = 1, i_canales = 1, i_pixeles = Some px\<rparr>
        \<and> leer px 0 1 0 = Some 11"
  using canales_forzados_a_uno [of 2 "[10, 11, 20, 21]" 1 2] by auto

section \<open>Properties of the brightness adjustment\<close>

lemma nivel_nat:
  "nivel xs i = (if 0 \<le> i \<and> nat i < length xs then Some (xs ! nat i) else None)"
  by (auto simp: nivel_def)

lemma nivel_Some:
  "nivel xs i = Some a \<longleftrightarrow> 0 \<le> i \<and> nat i < length xs \<and> a = xs ! nat i"
  by (auto simp: nivel_def)

lemma nivel_update:
  assumes "0 \<le> i" "nat i < length xs"
  shows "nivel (xs[nat i := a]) j = (if j = i then Some a else nivel xs j)"
proof (cases "j = i")
  case True
  then show ?thesis
    using assms by (simp add: nivel_def)
next
  case False
  then have "0 \<le> j \<Longrightarrow> xs[nat i := a] ! nat j = xs ! nat j"
    using assms by simp
  then show ?thesis
    using False by (auto simp: nivel_def)
qed

lemma escribir_leer:
  assumes "escribir px y x c v = Some px'"
  shows "leer px' y' x' c' = (if (y', x', c') = (y, x, c) then Some v else leer px y' x' c')"
proof -
  obtain fila p where fila: "nivel px y = Some fila" and p: "nivel fila x = Some p"
    and c: "0 \<le> c" "nat c < length p"
    and px': "px' = px[nat y := fila[nat x := p[nat c := v]]]"
    using assms by (auto simp: escribir_def split: option.splits if_splits)
  have y: "0 \<le> y" "nat y < length px" and x: "0 \<le> x" "nat x < length fila"
    using fila p by (simp_all add: nivel_Some)
  have n1: "nivel px' j = (if j = y then Some (fila[nat x := p[nat c := v]]) else nivel px j)" for j
    unfolding px' using y by (rule nivel_update)
  have n2: "nivel (fila[nat x := p[nat c := v]]) j
              = (if j = x then Some (p[nat c := v]) else nivel fila j)" for j
    using x by (rule nivel_update)
  have n3: "nivel (p[nat c := v]) j = (if j = c then Some v else nivel p j)" for j
    using c by (rule nivel_update)
  show ?thesis
    by (simp add: leer_def n1 n2 n3 fila p)
qed

lemma escribir_forma:
  assumes "escribir px y x c v = Some px'" "forma px h w k"
  shows "forma px' h w k"
proof -
  obtain fila p where fila: "nivel px y = Some fila" and p: "nivel fila x = Some p"
    and px': "px' = px[nat y := fila[nat x := p[nat c := v]]]"
    using assms by (auto simp: escribir_def split: option.splits if_splits)
  have y: "nat y < length px" "fila = px ! nat y" and x: "nat x < length fila" "p = fila ! nat x"
    using fila p by (simp_all add: nivel_Some)
  have "int (length (px' ! i)) = w \<and> list_all (\<lambda>p. int (length p) = k) (px' ! i)"
    if "i < length px" for i
  proof (cases "i = nat y")
    case False
    then show ?thesis
      using assms(2) that by (simp add: px' forma_def list_all_length)
  next
    case True
    have f: "int (length fila) = w" "\<And>j. j < length fila \<Longrightarrow> int (length (fila ! j)) = k"
      using assms(2) y by (simp_all add: forma_def list_all_length)
    have "int (length (fila[nat x := p[nat c := v]] ! j)) = k" if "j < length fila" for j
      using that f x by (cases "j = nat x") simp_all
    then show ?thesis
      using True y f by (simp add: px' list_all_length)
  qed
  then show ?thesis
    using assms(2) by (simp add: forma_def list_all_length px')
qed

lemma escribir_dentro:
  assumes "leer px y x c = Some u"
  shows "\<exists>px'. escribir px y x c v = Some px'"
  using assms by (auto simp: leer_def escribir_def nivel_def split: option.splits if_splits)


lemma leer_nat:
  assumes "i < length a" "j < length (a ! i)" "l < length (a ! i ! j)"
  shows "leer a (int i) (int j) (int l) = Some (a ! i ! j ! l)"
  using assms by (simp add: leer_def nivel_def)

lemma matriz_igual:
  assumes "forma a h w k" "forma b h w k"
    and "\<And>y x c. leer a y x c = leer b y x c"
  shows "a = b"
proof (rule nth_equalityI)
  show la: "length a = length b"
    using assms by (simp add: forma_def)
  fix i assume i: "i < length a"
  have fa: "int (length (a ! i)) = w" and fb: "int (length (b ! i)) = w"
    using assms(1,2) i la by (auto simp: forma_def list_all_length)
  show "a ! i = b ! i"
  proof (rule nth_equalityI)
    show lf: "length (a ! i) = length (b ! i)"
      using fa fb by simp
    fix j assume j: "j < length (a ! i)"
    have pa: "int (length (a ! i ! j)) = k" and pb: "int (length (b ! i ! j)) = k"
      using assms(1,2) i la j lf by (auto simp: forma_def list_all_length)
    show "a ! i ! j = b ! i ! j"
    proof (rule nth_equalityI)
      show lp: "length (a ! i ! j) = length (b ! i ! j)"
        using pa pb by simp
      fix l assume l: "l < length (a ! i ! j)"
      have "leer a (int i) (int j) (int l) = Some (a ! i ! j ! l)"
        using i j l by (rule leer_nat)
      moreover have "leer b (int i) (int j) (int l) = Some (b ! i ! j ! l)"
        using i j l la lf lp by (intro leer_nat) simp_all
      ultimately show "a ! i ! j ! l = b ! i ! j ! l"
        using assms(3) [of "int i" "int j" "int l"] by simp
    qed
  qed
qed

lemma nivel_map: "nivel (map f xs) i = map_option f (nivel xs i)"
  by (simp add: nivel_nat)

lemma leer_map: "leer (map (map (map f)) px) y x c = map_option f (leer px y x c)"
  by (simp add: leer_def nivel_map split: option.splits)

lemma como_int_en_rango: "- (2 ^ 31) \<le> z \<Longrightarrow> z < 2 ^ 31 \<Longrightarrow> como_int z = z"
  by (simp add: como_int_def)

lemma ajuste_clamp:
  assumes "- (2 ^ 31) \<le> delta" "delta \<le> 2 ^ 31 - 256"
  shows "ajuste delta v = word_of_int (max 0 (min 255 (uint v + delta)))"
proof -
  have v: "0 \<le> uint v" "uint v < 256"
    using uint_bounded [of v] by simp_all
  have "- (2 ^ 31) \<le> uint v + delta" "uint v + delta < 2 ^ 31"
    using v assms by linarith+
  then have "como_int (uint v + delta) = uint v + delta"
    by (rule como_int_en_rango)
  then show ?thesis
    by (simp add: ajuste_def Let_def max_def min_def)
qed

lemma brilloSecuencial_ajuste:
  assumes "- (2 ^ 31) \<le> delta" "delta \<le> 2 ^ 31 - 256"
  shows "brilloSecuencial delta px = map (map (map (ajuste delta))) px"
proof -
  have "ajuste delta = (\<lambda>v. word_of_int (max 0 (min 255 (uint v + delta))))"
    by (rule ext) (rule ajuste_clamp [OF assms])
  then show ?thesis
    unfolding brilloSecuencial_def by (simp only:)
qed

lemma forma_map: "forma px h w k \<Longrightarrow> forma (map (map (map f)) px) h w k"
  by (simp add: forma_def list_all_length)

lemma paso_brillo_Some:
  assumes "leer px y x c = Some u"
  shows "\<exists>px'. paso_brillo px (delta, y, x, c) = Some px'
           \<and> (\<forall>y' x' c'. leer px' y' x' c'
                  = (if (y', x', c') = (y, x, c) then Some (ajuste delta u) else leer px y' x' c'))
           \<and> (\<forall>h w k. forma px h w k \<longrightarrow> forma px' h w k)"
proof -
  obtain px' where e: "escribir px y x c (ajuste delta u) = Some px'"
    using escribir_dentro [OF assms] by blast
  have "paso_brillo px (delta, y, x, c) = Some px'"
    using assms e by (simp add: paso_brillo_def)
  then show ?thesis
    using escribir_leer [OF e] escribir_forma [OF e] by blast
qed

lemma bucle_brillo:
  assumes "distinct ss"
    and "\<And>s. s \<in> set ss \<Longrightarrow> fst s = delta \<and> (case snd s of (y, x, c) \<Rightarrow> leer px y x c) \<noteq> None"
  shows "\<exists>px'. bucle paso_brillo ss px = Some px'
           \<and> (\<forall>y x c. leer px' y x c
                  = (if (delta, y, x, c) \<in> set ss then map_option (ajuste delta) (leer px y x c)
                     else leer px y x c))
           \<and> (\<forall>h w k. forma px h w k \<longrightarrow> forma px' h w k)"
  using assms
proof (induction ss arbitrary: px)
  case Nil
  then show ?case by simp
next
  case (Cons s ss)
  obtain y x c where s: "s = (delta, y, x, c)"
    using Cons.prems(2) [of s] by (cases s) auto
  obtain u where u: "leer px y x c = Some u"
    using Cons.prems(2) [of s] s by auto
  obtain px1 where p1: "paso_brillo px (delta, y, x, c) = Some px1"
    and l1: "\<And>y' x' c'. leer px1 y' x' c'
               = (if (y', x', c') = (y, x, c) then Some (ajuste delta u) else leer px y' x' c')"
    and f1: "\<And>h w k. forma px h w k \<Longrightarrow> forma px1 h w k"
    using paso_brillo_Some [OF u, of delta] by blast
  have resto: "fst t = delta \<and> (case snd t of (y, x, c) \<Rightarrow> leer px1 y x c) \<noteq> None"
    if "t \<in> set ss" for t
    using Cons.prems(2) [of t] that by (auto simp: l1 split: prod.splits)
  have "distinct ss"
    using Cons.prems(1) by simp
  from Cons.IH [OF this resto] obtain px'
    where b: "bucle paso_brillo ss px1 = Some px'"
      and l: "\<And>y x c. leer px' y x c
               = (if (delta, y, x, c) \<in> set ss then map_option (ajuste delta) (leer px1 y x c)
                  else leer px1 y x c)"
      and f: "\<And>h w k. forma px1 h w k \<Longrightarrow> forma px' h w k"
    by blast
  have nuevo: "(delta, y, x, c) \<notin> set ss"
    using Cons.prems(1) s by simp
  have "bucle paso_brillo (s # ss) px = Some px'"
    using p1 b s by simp
  moreover have "leer px' y' x' c'
                   = (if (delta, y', x', c') \<in> set (s # ss)
                      then map_option (ajuste delta) (leer px y' x' c') else leer px y' x' c')"
    for y' x' c'
    using nuevo u by (auto simp: l l1 s)
  moreover have "forma px h w k \<Longrightarrow> forma px' h w k" for h w k
    using f f1 by blast
  ultimately show ?case
    by blast
qed

lemma mset_concat_update:
  "i < length ts \<Longrightarrow> mset (concat (ts[i := u])) + mset (ts ! i) = mset (concat ts) + mset u"
proof (induction ts arbitrary: i)
  case Nil
  then show ?case by simp
next
  case (Cons t ts)
  then show ?case
    by (cases i) (simp_all add: ac_simps)
qed

lemma intercalado_mset: "intercalado ts ss \<Longrightarrow> mset ss = mset (concat ts)"
proof (induction rule: intercalado.induct)
  case (fin ts)
  then have "concat ts = []"
    by (simp add: list_all_iff)
  then show ?case by simp
next
  case (paso i ts a t ss)
  have "mset (concat (ts[i := t])) + mset (ts ! i) = mset (concat ts) + mset t"
    using paso.hyps(1) by (rule mset_concat_update)
  then show ?case
    using paso by simp
qed

lemma indices_producto:
  "indices inicio fin w k = List.product [inicio..fin - 1] (List.product [0..w - 1] [0..k - 1])"
  by (simp add: indices_def product_concat_map map_concat comp_def)

lemma distinct_indices: "distinct (indices inicio fin w k)"
  by (simp add: indices_producto distinct_product)

lemma concat_indices:
  "concat (map (\<lambda>i. indices (a i) (b i) w k) js)
     = [(y, x, c). y \<leftarrow> concat (map (\<lambda>i. [a i..b i - 1]) js), x \<leftarrow> [0..w - 1], c \<leftarrow> [0..k - 1]]"
  by (induction js) (simp_all add: indices_def)

lemma si_menor_min: "(if a < b then a else b) = min a (b::int)"
  by (simp add: min_def)

lemma particion_filas:
  fixes r alto :: int
  assumes "0 \<le> r" "0 \<le> alto"
  shows "concat (map (\<lambda>i. [i * r..min ((i + 1) * r) alto - 1]) [0..int m - 1])
           = [0..min (int m * r) alto - 1]"
proof (induction m)
  case 0
  then show ?case using assms by simp
next
  case (Suc m)
  have ult: "[0..int (Suc m) - 1] = [0..int m - 1] @ [int m]"
    using upto_rec2 [of 0 "int m"] by simp
  have mr: "0 \<le> int m * r" "int m * r \<le> (int m + 1) * r"
    using assms by (simp_all add: algebra_simps)
  have "concat (map (\<lambda>i. [i * r..min ((i + 1) * r) alto - 1]) [0..int (Suc m) - 1])
          = [0..min (int m * r) alto - 1] @ [int m * r..min ((int m + 1) * r) alto - 1]"
    unfolding ult using Suc.IH by simp
  also have "\<dots> = [0..min ((int m + 1) * r) alto - 1]"
  proof (cases "int m * r < alto")
    case True
    then have "min (int m * r) alto = int m * r"
      by simp
    moreover have "[0..int m * r - 1] @ [int m * r - 1 + 1..min ((int m + 1) * r) alto - 1]
                     = [0..min ((int m + 1) * r) alto - 1]"
      using True mr by (intro upto_pegar) simp_all
    ultimately show ?thesis
      by simp
  next
    case False
    then have "min (int m * r) alto = alto" "min ((int m + 1) * r) alto = alto"
      using mr by simp_all
    then show ?thesis
      using False by simp
  qed
  also have "(int m + 1) * r = int (Suc m) * r"
    by simp
  finally show ?case .
qed

lemma filasPorHilo_cubre:
  assumes "1 \<le> numHilos" "0 \<le> alto"
  shows "0 \<le> filasPorHilo alto numHilos" "alto \<le> numHilos * filasPorHilo alto numHilos"
proof -
  have pos: "0 < real_of_int numHilos"
    using assms by simp
  have "0 \<le> real_of_int alto / real_of_int numHilos"
    using assms by simp
  then show "0 \<le> filasPorHilo alto numHilos"
    unfolding filasPorHilo_def by (simp add: zero_le_ceiling)
  have "real_of_int alto / real_of_int numHilos \<le> real_of_int (filasPorHilo alto numHilos)"
    unfolding filasPorHilo_def by (rule le_of_int_ceiling)
  then have "real_of_int alto \<le> real_of_int (filasPorHilo alto numHilos) * real_of_int numHilos"
    using pos by (simp only: pos_divide_le_eq)
  then have "real_of_int alto \<le> real_of_int (numHilos * filasPorHilo alto numHilos)"
    by (simp add: mult.commute)
  then show "alto \<le> numHilos * filasPorHilo alto numHilos"
    by (simp only: of_int_le_iff)
qed

lemma lanzar_todos: "lanzar (\<lambda>i. True) args js = (map args js, None)"
  by (induction js) simp_all

lemma leer_Some_valido:
  assumes "forma px h w k" "leer px y x c = Some u"
  shows "0 \<le> y \<and> y < h \<and> 0 \<le> x \<and> x < w \<and> 0 \<le> c \<and> c < k"
proof -
  obtain fila p where fila: "nivel px y = Some fila" and p: "nivel fila x = Some p"
    and c: "nivel p c = Some u"
    using assms(2) by (auto simp: leer_def split: option.splits)
  have y: "0 \<le> y" "nat y < length px" "fila = px ! nat y"
    using fila by (simp_all add: nivel_Some)
  have x: "0 \<le> x" "nat x < length fila" "p = fila ! nat x"
    using p by (simp_all add: nivel_Some)
  have c': "0 \<le> c" "nat c < length p"
    using c by (simp_all add: nivel_Some)
  have "int (length px) = h" "int (length fila) = w" "int (length p) = k"
    using assms(1) y x by (simp_all add: forma_def list_all_length)
  then show ?thesis
    using y x c' by linarith
qed

lemma pasos_de_todos:
  assumes "1 \<le> numHilos" "0 \<le> i_alto info"
  shows "concat (map (\<lambda>a. [b_inicio a..b_fin a - 1])
                  (map (argsHilo info delta numHilos) [0..numHilos - 1])) = [0..i_alto info - 1]"
    and "concat (map pasosHilo (map (argsHilo info delta numHilos) [0..numHilos - 1]))
           = map (Pair delta) (indices 0 (i_alto info) (i_ancho info) (i_canales info))"
proof -
  define r where "r = filasPorHilo (i_alto info) numHilos"
  have r: "0 \<le> r" "i_alto info \<le> numHilos * r"
    unfolding r_def using assms by (rule filasPorHilo_cubre)+
  have n: "numHilos = int (nat numHilos)"
    using assms by simp
  have "concat (map (\<lambda>i. [i * r..min ((i + 1) * r) (i_alto info) - 1]) [0..int (nat numHilos) - 1])
          = [0..min (int (nat numHilos) * r) (i_alto info) - 1]"
    using r(1) assms(2) by (rule particion_filas)
  then have filas: "concat (map (\<lambda>i. [i * r..min ((i + 1) * r) (i_alto info) - 1]) [0..numHilos - 1])
                      = [0..i_alto info - 1]"
    using r(2) n by (simp add: min_def)
  show "concat (map (\<lambda>a. [b_inicio a..b_fin a - 1])
                  (map (argsHilo info delta numHilos) [0..numHilos - 1])) = [0..i_alto info - 1]"
    using filas by (simp add: argsHilo_def comp_def si_menor_min r_def)
  have "concat (map pasosHilo (map (argsHilo info delta numHilos) [0..numHilos - 1]))
          = map (Pair delta)
              (concat (map (\<lambda>i. indices (i * r) (min ((i + 1) * r) (i_alto info))
                                   (i_ancho info) (i_canales info)) [0..numHilos - 1]))"
    by (simp add: pasosHilo_def argsHilo_def comp_def si_menor_min r_def map_concat)
  also have "concat (map (\<lambda>i. indices (i * r) (min ((i + 1) * r) (i_alto info))
                                   (i_ancho info) (i_canales info)) [0..numHilos - 1])
               = indices 0 (i_alto info) (i_ancho info) (i_canales info)"
    unfolding concat_indices filas by (simp add: indices_def)
  finally show "concat (map pasosHilo (map (argsHilo info delta numHilos) [0..numHilos - 1]))
           = map (Pair delta) (indices 0 (i_alto info) (i_ancho info) (i_canales info))" .
qed

lemma upto_0_1: "[0..1] = [0, 1]"
  by (simp add: upto_rec1)


text \<open>
  What the dispatch computes, for every \<open>delta\<close> and every number of threads from 1 on
  (the source uses 2), when every thread can be created: the row ranges of the threads,
  in order, make up exactly the rows \<open>0 .. alto - 1\<close> (so they are contiguous, disjoint
  and cover the grid), every thread is joined, and whatever the interleaving of the
  threads' actions, the resulting grid has \<open>ajuste delta\<close> applied once to every
  sample.
\<close>

lemma brillo_intercalado:
  assumes "i_pixeles info = Some px"
    and "forma px (i_alto info) (i_ancho info) (i_canales info)"
    and "1 \<le> numHilos"
    and "ajustarBrilloConcurrenteN numHilos (\<lambda>i. True) info delta = Some d"
    and "intercalado (map pasosHilo (creados d)) ss"
  shows "concat (map (\<lambda>a. [b_inicio a..b_fin a - 1]) (creados d)) = [0..i_alto info - 1]
         \<and> unidos d = [0..numHilos - 1]
         \<and> bucle paso_brillo ss px = Some (map (map (map (ajuste delta))) px)"
proof -
  have alto: "0 \<le> i_alto info"
    using assms(2) by (auto simp: forma_def)
  have d: "creados d = map (argsHilo info delta numHilos) [0..numHilos - 1]"
    "unidos d = [0..numHilos - 1]"
    using assms(1,4) by (auto simp: ajustarBrilloConcurrenteN_def lanzar_todos)
  have filas: "concat (map (\<lambda>a. [b_inicio a..b_fin a - 1]) (creados d)) = [0..i_alto info - 1]"
    unfolding d using assms(3) alto by (rule pasos_de_todos(1))
  have "mset ss = mset (concat (map pasosHilo (creados d)))"
    using assms(5) by (rule intercalado_mset)
  also have "concat (map pasosHilo (creados d))
               = map (Pair delta) (indices 0 (i_alto info) (i_ancho info) (i_canales info))"
    unfolding d using assms(3) alto by (rule pasos_de_todos(2))
  finally have ms: "mset ss
    = mset (map (Pair delta) (indices 0 (i_alto info) (i_ancho info) (i_canales info)))" .
  have "distinct (map (Pair delta) (indices 0 (i_alto info) (i_ancho info) (i_canales info)))"
    by (simp add: distinct_map distinct_indices inj_on_def)
  then have dist: "distinct ss"
    using ms by (metis mset_eq_imp_distinct_iff)
  have conj: "set ss = Pair delta ` set (indices 0 (i_alto info) (i_ancho info) (i_canales info))"
    using mset_eq_setD [OF ms] by simp
  have dentro: "fst s = delta \<and> (case snd s of (y, x, c) \<Rightarrow> leer px y x c) \<noteq> None"
    if "s \<in> set ss" for s
  proof -
    have "s \<in> Pair delta ` set (indices 0 (i_alto info) (i_ancho info) (i_canales info))"
      using that conj by simp
    then obtain t where "s = (delta, t)"
      and t: "t \<in> set (indices 0 (i_alto info) (i_ancho info) (i_canales info))"
      by blast
    then obtain y x c where s: "s = (delta, y, x, c)" and "t = (y, x, c)"
      by (cases t) simp
    then have v: "0 \<le> y" "y < i_alto info" "0 \<le> x" "x < i_ancho info"
      "0 \<le> c" "c < i_canales info"
      using t by (simp_all add: set_indices)
    have "leer px y x c = Some (px ! nat y ! nat x ! nat c)"
      using assms(2) v by (rule leer_dentro)
    then show ?thesis
      by (simp add: s)
  qed
  obtain px' where b: "bucle paso_brillo ss px = Some px'"
    and l: "\<And>y x c. leer px' y x c
              = (if (delta, y, x, c) \<in> set ss then map_option (ajuste delta) (leer px y x c)
                 else leer px y x c)"
    and f: "\<And>h w k. forma px h w k \<Longrightarrow> forma px' h w k"
    using bucle_brillo [OF dist dentro] by blast
  have "leer px' y x c = leer (map (map (map (ajuste delta))) px) y x c" for y x c
  proof (cases "(delta, y, x, c) \<in> set ss")
    case True
    then show ?thesis
      by (simp add: l leer_map)
  next
    case False
    have "leer px y x c = None"
    proof (rule ccontr)
      assume "leer px y x c \<noteq> None"
      then obtain u where "leer px y x c = Some u"
        by blast
      then have "(y, x, c) \<in> set (indices 0 (i_alto info) (i_ancho info) (i_canales info))"
        using leer_Some_valido [OF assms(2)] by (simp add: set_indices)
      then show False
        using False conj by blast
    qed
    then show ?thesis
      using False by (simp add: l leer_map)
  qed
  then have "px' = map (map (map (ajuste delta))) px"
    using f [OF assms(2)] forma_map [OF assms(2)] by (intro matriz_igual) blast+
  then show ?thesis
    using filas d(2) b by simp
qed

text \<open>
  For every \<open>delta\<close> of type \<^verbatim>\<open>int\<close> up to \<^verbatim>\<open>INT_MAX - 255\<close> no sum overflows,
  \<open>ajuste delta\<close> is \<open>clamp(sample + delta, 0, 255)\<close>, and the grid that every
  interleaving leaves is the reference of the specification.
\<close>

lemma brillo_concurrente_en_rango:
  assumes "i_pixeles info = Some px"
    and "forma px (i_alto info) (i_ancho info) (i_canales info)"
    and "1 \<le> numHilos"
    and "ajustarBrilloConcurrenteN numHilos (\<lambda>i. True) info delta = Some d"
    and "intercalado (map pasosHilo (creados d)) ss"
    and "- (2 ^ 31) \<le> delta" "delta \<le> 2 ^ 31 - 256"
  shows "bucle paso_brillo ss px = Some (brilloSecuencial delta px)"
  using brillo_intercalado [OF assms(1-5)] brilloSecuencial_ajuste [OF assms(6,7)] by simp

lemma brillo_concurrente_en_rango_ejemplo:
  "ajustarBrilloConcurrenteN 2 (\<lambda>i. True)
      \<lparr>i_ancho = 1, i_alto = 3, i_canales = 1, i_pixeles = Some [[[100]], [[200]], [[7]]]\<rparr> 100
     = Some \<lparr>creados = [\<lparr>b_inicio = 0, b_fin = 2, b_ancho = 1, b_canales = 1, b_delta = 100\<rparr>,
                          \<lparr>b_inicio = 2, b_fin = 3, b_ancho = 1, b_canales = 1, b_delta = 100\<rparr>],
              unidos = [0, 1], error_hilo = None\<rparr>
   \<and> intercalado [[(100, 0, 0, 0), (100, 1, 0, 0)], [(100, 2, 0, 0) :: accion]]
        [(100, 0, 0, 0), (100, 2, 0, 0), (100, 1, 0, 0)]
   \<and> bucle paso_brillo [(100, 0, 0, 0), (100, 2, 0, 0), (100, 1, 0, 0)] [[[100]], [[200]], [[7]]]
     = Some [[[200]], [[255]], [[107]]]"
proof -
  define info :: "matriz option ImagenInfo"
    where "info = \<lparr>i_ancho = 1, i_alto = 3, i_canales = 1,
                       i_pixeles = Some [[[100]], [[200]], [[7]]]\<rparr>"
  define d where "d = \<lparr>creados = [\<lparr>b_inicio = 0, b_fin = 2, b_ancho = 1, b_canales = 1, b_delta = 100\<rparr>,
                          \<lparr>b_inicio = 2, b_fin = 3, b_ancho = 1, b_canales = 1, b_delta = 100\<rparr>],
              unidos = [0, 1], error_hilo = None\<rparr>"
  have h1: "i_pixeles info = Some [[[100]], [[200]], [[7]]]"
    by (simp add: info_def)
  have h2: "forma [[[100]], [[200]], [[7]]] (i_alto info) (i_ancho info) (i_canales info)"
    by (simp add: info_def forma_def)
  have h3: "(1::int) \<le> 2"
    by simp
  have h4: "ajustarBrilloConcurrenteN 2 (\<lambda>i. True) info 100 = Some d"
    by (simp add: ajustarBrilloConcurrenteN_def info_def d_def argsHilo_def filasPorHilo_def
        upto_0_1)
  have pasos: "map pasosHilo (creados d) = [[(100, 0, 0, 0), (100, 1, 0, 0)], [(100, 2, 0, 0)]]"
    by (simp add: d_def pasosHilo_def indices_def upto_0_1)
  have "intercalado [[], [] :: accion list] []"
    by (rule intercalado.fin) simp
  from intercalado.paso [of 0 "[[(100, 1, 0, 0)], []]" "(100, 1, 0, 0)" "[]", simplified, OF this]
  have "intercalado [[(100, 1, 0, 0)], [] :: accion list] [(100, 1, 0, 0)]" .
  from intercalado.paso [of 1 "[[(100, 1, 0, 0)], [(100, 2, 0, 0)]]" "(100, 2, 0, 0)" "[]", simplified, OF this]
  have "intercalado [[(100, 1, 0, 0)], [(100, 2, 0, 0) :: accion]] [(100, 2, 0, 0), (100, 1, 0, 0)]" .
  from intercalado.paso [of 0 "[[(100, 0, 0, 0), (100, 1, 0, 0)], [(100, 2, 0, 0)]]" "(100, 0, 0, 0)"
      "[(100, 1, 0, 0)]", simplified, OF this]
  have h5: "intercalado [[(100, 0, 0, 0), (100, 1, 0, 0)], [(100, 2, 0, 0) :: accion]]
              [(100, 0, 0, 0), (100, 2, 0, 0), (100, 1, 0, 0)]" .
  have h6: "intercalado (map pasosHilo (creados d)) [(100, 0, 0, 0), (100, 2, 0, 0), (100, 1, 0, 0)]"
    unfolding pasos by (rule h5)
  have h7: "- (2 ^ 31) \<le> (100::int)" "(100::int) \<le> 2 ^ 31 - 256"
    by simp_all
  from brillo_concurrente_en_rango [OF h1 h2 h3 h4 h6 h7]
  have "bucle paso_brillo [(100, 0, 0, 0), (100, 2, 0, 0), (100, 1, 0, 0)] [[[100]], [[200]], [[7]]]
          = Some (brilloSecuencial 100 [[[100]], [[200]], [[7]]])"
    by simp
  then show ?thesis
    using h4 h5 by (simp add: info_def d_def brilloSecuencial_def)
qed


text \<open>
  Claim C2 says that when a thread cannot be created, the threads already created are
  joined before the error is reported. The function returns at line 500, inside the
  first loop, before the loop of \<^verbatim>\<open>pthread_join\<close>: when the creation of thread 1
  fails, thread 0 has been created and is not joined by the time the function returns.
\<close>

theorem hilo_sin_join:
  "ajustarBrilloConcurrente (\<lambda>i. i \<noteq> 1)
      \<lparr>i_ancho = 1, i_alto = 3, i_canales = 1, i_pixeles = Some [[[100]], [[200]], [[7]]]\<rparr> 100
     = Some \<lparr>creados = [\<lparr>b_inicio = 0, b_fin = 2, b_ancho = 1, b_canales = 1, b_delta = 100\<rparr>],
              unidos = [], error_hilo = Some 1\<rparr>"
  by (simp add: ajustarBrilloConcurrente_def ajustarBrilloConcurrenteN_def argsHilo_def
      filasPorHilo_def upto_0_1)

section \<open>Properties of allocation and release\<close>

lemma quitar_vacio [simp]: "quitar {} m = m"
  by (simp add: quitar_def restrict_map_def)

lemma quitar_quitar: "quitar A (quitar B m) = quitar (A \<union> B) m"
  by (simp add: quitar_def Int_commute)

lemma bloques_quitar: "bloques (quitar A m) a = (if a \<in> A then None else bloques m a)"
  by (simp add: quitar_def restrict_map_def)

lemma cargar_quitar: "p \<notin> A \<Longrightarrow> cargar p i (quitar A m) = cargar p i m"
  by (simp add: cargar_def bloques_quitar)

lemma free_quitar:
  assumes "p \<noteq> 0" "bloques m p \<noteq> None"
  shows "free p m = Some (quitar {p} m)"
  using assms by (simp add: free_def quitar_def restrict_complement_singleton_eq)

lemma liberar_pixeles_quitar:
  assumes "cargar matriz y m = Some fila"
    and "\<And>x. x \<in> set xs \<Longrightarrow> cargar fila x m = Some (P x) \<and> P x \<noteq> 0 \<and> bloques m (P x) \<noteq> None
                                 \<and> P x \<noteq> matriz \<and> P x \<noteq> fila"
    and "distinct (map P xs)"
  shows "liberar_pixeles matriz y xs m = Some (quitar (P ` set xs) m)"
  using assms
proof (induction xs arbitrary: m)
  case Nil
  then show ?case by (simp add: liberar_pixeles_def)
next
  case (Cons x xs)
  have x: "cargar fila x m = Some (P x)" "P x \<noteq> 0" "bloques m (P x) \<noteq> None"
    "P x \<noteq> matriz" "P x \<noteq> fila"
    using Cons.prems(2) [of x] by simp_all
  define m1 where "m1 = quitar {P x} m"
  have paso: "do { fila \<leftarrow> cargar matriz y m; p \<leftarrow> cargar fila x m; free p m } = Some m1"
    using Cons.prems(1) x by (simp add: free_quitar m1_def)
  have "liberar_pixeles matriz y xs m1 = Some (quitar (P ` set xs) m1)"
  proof (rule Cons.IH)
    show "cargar matriz y m1 = Some fila"
      using Cons.prems(1) x by (simp add: m1_def cargar_quitar)
    show "distinct (map P xs)"
      using Cons.prems(3) by simp
    fix x' assume x': "x' \<in> set xs"
    then have "P x' \<noteq> P x"
      using Cons.prems(3) by (metis distinct.simps(2) image_eqI list.simps(9) set_map)
    then show "cargar fila x' m1 = Some (P x') \<and> P x' \<noteq> 0 \<and> bloques m1 (P x') \<noteq> None
                 \<and> P x' \<noteq> matriz \<and> P x' \<noteq> fila"
      using Cons.prems(2) [of x'] x' x by (simp add: m1_def cargar_quitar bloques_quitar)
  qed
  then show ?case
    using paso by (simp add: liberar_pixeles_def m1_def quitar_quitar Un_commute)
qed

lemma liberar_filas_quitar:
  assumes "\<And>y. y \<in> set ys \<Longrightarrow> cargar matriz y m = Some (F y) \<and> F y \<noteq> 0 \<and> F y \<noteq> matriz
                                 \<and> bloques m (F y) \<noteq> None"
    and "\<And>y x. y \<in> set ys \<Longrightarrow> x < nat ancho \<Longrightarrow>
           cargar (F y) x m = Some (P y x) \<and> P y x \<noteq> 0 \<and> P y x \<noteq> matriz
           \<and> bloques m (P y x) \<noteq> None"
    and "distinct (concat (map (\<lambda>y. F y # map (P y) [0..<nat ancho]) ys))"
  shows "liberar_filas matriz ys ancho m
           = Some (quitar (set (concat (map (\<lambda>y. F y # map (P y) [0..<nat ancho]) ys))) m)"
  using assms
proof (induction ys arbitrary: m)
  case Nil
  then show ?case by (simp add: liberar_filas_def)
next
  case (Cons y ys)
  define R where "R = (\<lambda>y. F y # map (P y) [0..<nat ancho])"
  have dist: "distinct (R y)" "distinct (concat (map R ys))"
    "set (R y) \<inter> set (concat (map R ys)) = {}"
    using Cons.prems(3) unfolding R_def [symmetric] by simp_all
  have fy: "cargar matriz y m = Some (F y)" "F y \<noteq> 0" "F y \<noteq> matriz" "bloques m (F y) \<noteq> None"
    using Cons.prems(1) [of y] by simp_all
  have py: "cargar (F y) x m = Some (P y x)" "P y x \<noteq> 0" "P y x \<noteq> matriz"
    "bloques m (P y x) \<noteq> None" "P y x \<noteq> F y" if "x < nat ancho" for x
  proof -
    show "cargar (F y) x m = Some (P y x)" "P y x \<noteq> 0" "P y x \<noteq> matriz"
      "bloques m (P y x) \<noteq> None"
      using Cons.prems(2) [of y x] that by simp_all
    have "F y \<notin> P y ` set [0..<nat ancho]"
      using dist(1) by (simp add: R_def)
    then show "P y x \<noteq> F y"
      using that by (metis atLeast0LessThan imageI lessThan_iff set_upt)
  qed
  define m1 where "m1 = quitar (P y ` set [0..<nat ancho]) m"
  have lp: "liberar_pixeles matriz y [0..<nat ancho] m = Some m1"
    unfolding m1_def
  proof (rule liberar_pixeles_quitar [OF fy(1)])
    show "distinct (map (P y) [0..<nat ancho])"
      using dist(1) by (simp add: R_def)
    fix x assume "x \<in> set [0..<nat ancho]"
    then show "cargar (F y) x m = Some (P y x) \<and> P y x \<noteq> 0 \<and> bloques m (P y x) \<noteq> None
                 \<and> P y x \<noteq> matriz \<and> P y x \<noteq> F y"
      using py by simp
  qed
  have "\<forall>x\<in>set [0..<nat ancho]. P y x \<noteq> F y \<and> P y x \<noteq> matriz"
    using py(3,5) by simp
  then have fuera: "F y \<notin> P y ` set [0..<nat ancho]" "matriz \<notin> P y ` set [0..<nat ancho]"
    by (force simp: image_iff)+
  have c1: "cargar matriz y m1 = Some (F y)"
    using fy(1) fuera by (simp add: m1_def cargar_quitar)
  have "bloques m1 (F y) \<noteq> None"
    using fy(4) fuera by (simp add: m1_def bloques_quitar)
  then have fr: "free (F y) m1 = Some (quitar {F y} m1)"
    using fy(2) by (intro free_quitar)
  define m2 where "m2 = quitar (set (R y)) m"
  have m2: "quitar {F y} m1 = m2"
    by (simp add: m1_def m2_def quitar_quitar R_def)
  have paso: "do { m1 \<leftarrow> liberar_pixeles matriz y [0..<nat ancho] m;
                   fila \<leftarrow> cargar matriz y m1; free fila m1 } = Some m2"
    using lp c1 fr m2 by simp
  have my: "matriz \<notin> set (R y)"
    using fy(3) fuera by (simp add: R_def)
  have "liberar_filas matriz ys ancho m2 = Some (quitar (set (concat (map R ys))) m2)"
    unfolding R_def
  proof (rule Cons.IH)
    show "distinct (concat (map (\<lambda>y. F y # map (P y) [0..<nat ancho]) ys))"
      using dist(2) by (simp add: R_def)
  next
    fix y' assume y': "y' \<in> set ys"
    have "F y' \<in> set (concat (map R ys))"
      using y' by (auto simp: R_def)
    then have "F y' \<notin> set (R y)"
      using dist(3) by blast
    then show "cargar matriz y' m2 = Some (F y') \<and> F y' \<noteq> 0 \<and> F y' \<noteq> matriz
                 \<and> bloques m2 (F y') \<noteq> None"
      using Cons.prems(1) [of y'] y' my by (simp add: m2_def cargar_quitar bloques_quitar)
  next
    fix y' x assume y': "y' \<in> set ys" and x: "x < nat ancho"
    have "F y' \<in> set (R y')" "P y' x \<in> set (R y')"
      using x by (simp_all add: R_def)
    then have "F y' \<in> set (concat (map R ys))" "P y' x \<in> set (concat (map R ys))"
      using y' by auto
    then have "F y' \<notin> set (R y)" "P y' x \<notin> set (R y)"
      using dist(3) by blast+
    then show "cargar (F y') x m2 = Some (P y' x) \<and> P y' x \<noteq> 0 \<and> P y' x \<noteq> matriz
                 \<and> bloques m2 (P y' x) \<noteq> None"
      using Cons.prems(2) [of y' x] y' x by (simp add: m2_def cargar_quitar bloques_quitar)
  qed
  then have "liberar_filas matriz (y # ys) ancho m
               = Some (quitar (set (concat (map R ys))) m2)"
    using paso by (simp add: liberar_filas_def)
  also have "quitar (set (concat (map R ys))) m2 = quitar (set (concat (map R (y # ys)))) m"
    by (simp add: m2_def quitar_quitar Un_commute)
  finally show ?case
    by (simp add: R_def)
qed

lemma mem_ok_fuera: "mem_ok m \<Longrightarrow> siguiente m \<le> a \<Longrightarrow> bloques m a = None"
  by (auto simp: mem_ok_def)

lemma malloc_casos:
  assumes "malloc n m = (p, m')"
  shows "(p = 0 \<and> bloques m' = bloques m \<and> siguiente m' = siguiente m)
         \<or> (p = siguiente m \<and> bloques m' = (bloques m)(siguiente m \<mapsto> replicate n Basura)
            \<and> siguiente m' = Suc (siguiente m))"
  using assms by (auto simp: malloc_def split: list.splits bool.splits)

lemma guardar_Some:
  assumes "bloques m p = Some cs" "i < length cs"
  shows "guardar p i v m = Some (m\<lparr>bloques := (bloques m)(p \<mapsto> cs[i := v])\<rparr>)"
  using assms by (simp add: guardar_def)

lemma cargar_Some:
  assumes "bloques m p = Some cs" "i < length cs" "cs ! i = Puntero q"
  shows "cargar p i m = Some q"
  using assms by (simp add: cargar_def)

lemma cargar_igual:
  "bloques m' p = bloques m p \<Longrightarrow> cargar p i m' = cargar p i m"
  by (simp add: cargar_def)

lemma asignar_pixeles_ok:
  assumes "mem_ok m" "cargar matriz y m = Some fila" "matriz < fila"
    and "siguiente m = fila + 1 + x0" "x0 \<le> w"
    and "fila_lista m fila w k x0" "k = nat canales"
  shows "\<exists>r m' x1. asignar_pixeles matriz y canales [x0..<w] m = Some (r, m')
           \<and> (r = None \<and> x1 = w \<or> r = Some x1 \<and> x1 < w)
           \<and> mem_ok m' \<and> siguiente m' = fila + 1 + x1
           \<and> (\<forall>a. a < fila \<longrightarrow> bloques m' a = bloques m a)
           \<and> fila_lista m' fila w k x1"
  using assms
proof (induction "w - x0" arbitrary: x0 m)
  case 0
  then have x0: "x0 = w"
    by simp
  have "asignar_pixeles matriz y canales [x0..<w] m = Some (None, m)"
    by (simp add: x0)
  moreover have "\<forall>a. a < fila \<longrightarrow> bloques m a = bloques m a"
    by simp
  ultimately show ?case
    using "0.prems"(1,4,6) x0 by blast
next
  case (Suc d)
  then have x0: "x0 < w"
    by simp
  obtain fcs where fcs: "bloques m fila = Some fcs" "length fcs = w"
    "\<And>x. x < x0 \<Longrightarrow> fcs ! x = Puntero (fila + 1 + x)"
    and pix: "\<And>x. x < x0 \<Longrightarrow> bloques m (fila + 1 + x) = Some (replicate k Basura)"
    using Suc.prems(6) by (auto simp: fila_lista_def)
  obtain p m1 where ml: "malloc (nat canales) m = (p, m1)"
    by (cases "malloc (nat canales) m")
  have lista: "[x0..<w] = x0 # [Suc x0..<w]"
    using x0 by (simp add: upt_conv_Cons)
  have mf: "bloques m matriz \<noteq> None" "matriz \<noteq> fila"
    using Suc.prems(2,3) by (auto simp: cargar_def split: option.splits)
  from malloc_casos [OF ml] show ?case
  proof (elim disjE conjE)
    assume p: "p = 0" and b1: "bloques m1 = bloques m" and s1: "siguiente m1 = siguiente m"
    define m2 where "m2 = m1\<lparr>bloques := (bloques m1)(fila \<mapsto> fcs[x0 := Puntero 0])\<rparr>"
    have c1: "cargar matriz y m1 = Some fila"
      using Suc.prems(2) b1 by (simp add: cargar_def)
    have g: "guardar fila x0 (Puntero p) m1 = Some m2"
      using fcs x0 b1 p by (simp add: guardar_Some m2_def)
    have res: "asignar_pixeles matriz y canales [x0..<w] m = Some (Some x0, m2)"
      using ml c1 g p by (simp add: lista)
    have "mem_ok m2"
      using Suc.prems(1) fcs(1) b1 s1 by (auto simp: mem_ok_def m2_def)
    moreover have "siguiente m2 = fila + 1 + x0"
      using Suc.prems(4) s1 by (simp add: m2_def)
    moreover have "\<forall>a. a < fila \<longrightarrow> bloques m2 a = bloques m a"
      using b1 by (simp add: m2_def)
    moreover have "fila_lista m2 fila w k x0"
      using fcs pix b1 by (simp add: fila_lista_def m2_def)
    ultimately have "asignar_pixeles matriz y canales [x0..<w] m = Some (Some x0, m2)
        \<and> (Some x0 = None \<and> x0 = w \<or> Some x0 = Some x0 \<and> x0 < w)
        \<and> mem_ok m2 \<and> siguiente m2 = fila + 1 + x0
        \<and> (\<forall>a. a < fila \<longrightarrow> bloques m2 a = bloques m a)
        \<and> fila_lista m2 fila w k x0"
      using res x0 by simp
    then show ?thesis
      by (intro exI)
  next
    assume p: "p = siguiente m"
      and b1: "bloques m1 = (bloques m)(siguiente m \<mapsto> replicate (nat canales) Basura)"
      and s1: "siguiente m1 = Suc (siguiente m)"
    have pf: "p = fila + 1 + x0" "p \<noteq> 0" "p \<noteq> fila" "p \<noteq> matriz"
      using p Suc.prems(3,4) by simp_all
    define m2 where "m2 = m1\<lparr>bloques := (bloques m1)(fila \<mapsto> fcs[x0 := Puntero p])\<rparr>"
    have c1: "cargar matriz y m1 = Some fila"
      using Suc.prems(2) b1 pf p by (simp add: cargar_def)
    have g: "guardar fila x0 (Puntero p) m1 = Some m2"
      using fcs x0 b1 pf p by (simp add: guardar_Some m2_def)
    have paso: "asignar_pixeles matriz y canales [x0..<w] m
                  = asignar_pixeles matriz y canales [Suc x0..<w] m2"
      using ml c1 g pf by (simp add: lista)
    have ok2: "mem_ok m2"
      using Suc.prems(1) fcs(1) b1 s1 by (auto simp: mem_ok_def m2_def)
    have c2: "cargar matriz y m2 = Some fila"
      using c1 mf by (simp add: cargar_def m2_def)
    have s2: "siguiente m2 = fila + 1 + Suc x0"
      using Suc.prems(4) s1 by (simp add: m2_def)
    have fl2: "fila_lista m2 fila w k (Suc x0)"
      unfolding fila_lista_def
    proof (intro conjI exI allI impI)
      show "bloques m2 fila = Some (fcs[x0 := Puntero p])"
        by (simp add: m2_def)
      show "length (fcs[x0 := Puntero p]) = w"
        using fcs by simp
      fix x assume x: "x < Suc x0"
      show "fcs[x0 := Puntero p] ! x = Puntero (fila + 1 + x)"
        using x x0 fcs pf by (cases "x = x0") simp_all
      show "bloques m2 (fila + 1 + x) = Some (replicate k Basura)"
        using x pix [of x] b1 pf p Suc.prems(7) by (cases "x = x0") (simp_all add: m2_def)
    qed
    have d: "d = w - Suc x0"
      using Suc.hyps(2) by simp
    have sx: "Suc x0 \<le> w"
      using x0 by simp
    have "\<exists>r m' x1. asignar_pixeles matriz y canales [Suc x0..<w] m2 = Some (r, m')
           \<and> (r = None \<and> x1 = w \<or> r = Some x1 \<and> x1 < w)
           \<and> mem_ok m' \<and> siguiente m' = fila + 1 + x1
           \<and> (\<forall>a. a < fila \<longrightarrow> bloques m' a = bloques m2 a)
           \<and> fila_lista m' fila w k x1"
      by (rule Suc.hyps(1) [OF d ok2 c2 Suc.prems(3) s2 sx fl2 Suc.prems(7)])
    then obtain r m' x1 where r: "asignar_pixeles matriz y canales [Suc x0..<w] m2 = Some (r, m')"
      "r = None \<and> x1 = w \<or> r = Some x1 \<and> x1 < w" "mem_ok m'" "siguiente m' = fila + 1 + x1"
      "\<forall>a. a < fila \<longrightarrow> bloques m' a = bloques m2 a" "fila_lista m' fila w k x1"
      by blast
    have viejo: "\<forall>a. a < fila \<longrightarrow> bloques m' a = bloques m a"
      using r(5) b1 pf p by (simp add: m2_def)
    have "asignar_pixeles matriz y canales [x0..<w] m = Some (r, m')
           \<and> (r = None \<and> x1 = w \<or> r = Some x1 \<and> x1 < w)
           \<and> mem_ok m' \<and> siguiente m' = fila + 1 + x1
           \<and> (\<forall>a. a < fila \<longrightarrow> bloques m' a = bloques m a)
           \<and> fila_lista m' fila w k x1"
      using r(1-4,6) viejo paso by simp
    then show ?thesis
      by (intro exI)
  qed
qed

lemma dir_fila_Suc: "dir_fila matriz w (Suc y) = dir_fila matriz w y + 1 + w"
  by (simp add: dir_fila_def)

lemma dir_fila_mono: "y < y' \<Longrightarrow> dir_fila matriz w y + w < dir_fila matriz w y'"
proof -
  assume "y < y'"
  then have "Suc y \<le> y'"
    by simp
  then have "Suc y * (w + 1) \<le> y' * (w + 1)"
    by (rule mult_le_mono1)
  then show ?thesis
    by (simp add: dir_fila_def)
qed

lemma map_suma_upt: "map (\<lambda>x. a + x) [0..<n] = [a..<a + n]"
  by (rule nth_equalityI) simp_all

lemma bloque_fila:
  "fila # map (\<lambda>x. fila + 1 + x) [0..<w] = [fila..<fila + 1 + w]"
proof -
  have "map (\<lambda>x. fila + 1 + x) [0..<w] = [fila + 1..<fila + 1 + w]"
    by (rule map_suma_upt)
  then show ?thesis
    by (simp add: upt_conv_Cons)
qed

lemma bloques_filas:
  "concat (map (\<lambda>y. [dir_fila matriz w y..<dir_fila matriz w y + 1 + w]) [0..<y0])
     = [matriz + 1..<dir_fila matriz w y0]"
proof (induction y0)
  case 0
  then show ?case by (simp add: dir_fila_def)
next
  case (Suc y0)
  have "matriz + 1 \<le> dir_fila matriz w y0"
    by (simp add: dir_fila_def)
  then have "[matriz + 1..<dir_fila matriz w y0] @ [dir_fila matriz w y0..<dir_fila matriz w y0 + 1 + w]
               = [matriz + 1..<dir_fila matriz w y0 + 1 + w]"
    by (metis le_add1 upt_add_eq_append add.assoc)
  then show ?case
    using Suc.IH by (simp add: dir_fila_Suc)
qed

lemma fila_lista_marco:
  assumes "fila_lista m fila w k x1"
    and "\<And>a. fila \<le> a \<Longrightarrow> a \<le> fila + x1 \<Longrightarrow> bloques m' a = bloques m a"
  shows "fila_lista m' fila w k x1"
proof -
  have "bloques m' fila = bloques m fila"
    by (rule assms(2)) simp_all
  moreover have "bloques m' (fila + 1 + x) = bloques m (fila + 1 + x)" if "x < x1" for x
    using that by (intro assms(2)) simp_all
  ultimately show ?thesis
    using assms(1) by (simp add: fila_lista_def)
qed

lemma liberar_pixeles_fila:
  assumes "fila_lista m fila w k x1" "cargar matriz y m = Some fila" "matriz < fila" "x1 \<le> w"
  shows "liberar_pixeles matriz y [0..<x1] m = Some (quitar {fila + 1..<fila + 1 + x1} m)"
proof -
  obtain fcs where fcs: "bloques m fila = Some fcs" "length fcs = w"
    "\<And>x. x < x1 \<Longrightarrow> fcs ! x = Puntero (fila + 1 + x)"
    and pix: "\<And>x. x < x1 \<Longrightarrow> bloques m (fila + 1 + x) = Some (replicate k Basura)"
    using assms(1) by (auto simp: fila_lista_def)
  have "liberar_pixeles matriz y [0..<x1] m
          = Some (quitar ((\<lambda>x. fila + 1 + x) ` set [0..<x1]) m)"
  proof (rule liberar_pixeles_quitar [OF assms(2)])
    show "distinct (map (\<lambda>x. fila + 1 + x) [0..<x1])"
      by (simp add: distinct_map inj_on_def)
    fix x assume "x \<in> set [0..<x1]"
    then have x: "x < x1"
      by simp
    then have "cargar fila x m = Some (fila + 1 + x)"
      using fcs assms(4) by (intro cargar_Some [of m fila fcs]) simp_all
    then show "cargar fila x m = Some (fila + 1 + x) \<and> fila + 1 + x \<noteq> 0
                 \<and> bloques m (fila + 1 + x) \<noteq> None \<and> fila + 1 + x \<noteq> matriz
                 \<and> fila + 1 + x \<noteq> fila"
      using pix [OF x] assms(3) by simp
  qed
  moreover have "(\<lambda>x. fila + 1 + x) ` set [0..<x1] = {fila + 1..<fila + 1 + x1}"
    using arg_cong [OF map_suma_upt [of "fila + 1" x1], of set] by (simp only: set_map set_upt)
  ultimately show ?thesis
    by simp
qed

lemma liberar_filas_listas:
  assumes "filas_listas m matriz h w k y0" "y0 \<le> h" "0 < matriz" "w = nat ancho"
  shows "liberar_filas matriz [0..<y0] ancho m
           = Some (quitar {matriz + 1..<dir_fila matriz w y0} m)"
proof -
  define F where "F = dir_fila matriz w"
  define P where "P = (\<lambda>y x. F y + 1 + x)"
  obtain mcs where mcs: "bloques m matriz = Some mcs" "length mcs = h"
    "\<And>y. y < y0 \<Longrightarrow> mcs ! y = Puntero (F y)"
    and filas: "\<And>y. y < y0 \<Longrightarrow> fila_lista m (F y) w k w"
    using assms(1) by (auto simp: filas_listas_def F_def)
  have mayor: "matriz < F y" for y
    by (simp add: F_def dir_fila_def)
  have "liberar_filas matriz [0..<y0] ancho m
          = Some (quitar (set (concat (map (\<lambda>y. F y # map (P y) [0..<nat ancho]) [0..<y0]))) m)"
  proof (rule liberar_filas_quitar)
    fix y assume "y \<in> set [0..<y0]"
    then have y: "y < y0"
      by simp
    have "cargar matriz y m = Some (F y)"
      using mcs y assms(2) by (intro cargar_Some [of m matriz mcs]) simp_all
    moreover have "bloques m (F y) \<noteq> None"
      using filas [OF y] by (auto simp: fila_lista_def)
    ultimately show "cargar matriz y m = Some (F y) \<and> F y \<noteq> 0 \<and> F y \<noteq> matriz
                       \<and> bloques m (F y) \<noteq> None"
      using mayor [of y] by simp
  next
    fix y x assume "y \<in> set [0..<y0]" and x: "x < nat ancho"
    then have y: "y < y0"
      by simp
    obtain fcs where fcs: "bloques m (F y) = Some fcs" "length fcs = w"
      "\<And>x. x < w \<Longrightarrow> fcs ! x = Puntero (F y + 1 + x)"
      and pix: "\<And>x. x < w \<Longrightarrow> bloques m (F y + 1 + x) = Some (replicate k Basura)"
      using filas [OF y] by (auto simp: fila_lista_def)
    have "cargar (F y) x m = Some (P y x)"
      unfolding P_def using fcs x assms(4) by (intro cargar_Some [of m "F y" fcs]) simp_all
    then show "cargar (F y) x m = Some (P y x) \<and> P y x \<noteq> 0 \<and> P y x \<noteq> matriz
                 \<and> bloques m (P y x) \<noteq> None"
      using pix [of x] x assms(4) mayor [of y] by (simp add: P_def)
  next
    have "concat (map (\<lambda>y. F y # map (P y) [0..<nat ancho]) [0..<y0])
            = [matriz + 1..<dir_fila matriz w y0]"
      unfolding P_def F_def assms(4) [symmetric] bloque_fila by (rule bloques_filas)
    then show "distinct (concat (map (\<lambda>y. F y # map (P y) [0..<nat ancho]) [0..<y0]))"
      by simp
  qed
  moreover have "concat (map (\<lambda>y. F y # map (P y) [0..<nat ancho]) [0..<y0])
                   = [matriz + 1..<dir_fila matriz w y0]"
    unfolding P_def F_def assms(4) [symmetric] bloque_fila by (rule bloques_filas)
  ultimately show ?thesis
    by simp
qed

lemma filas_listas_marco:
  assumes "filas_listas m matriz h w k y0"
    and "\<And>a. matriz \<le> a \<Longrightarrow> a < dir_fila matriz w y0 \<Longrightarrow> bloques m' a = bloques m a"
  shows "filas_listas m' matriz h w k y0"
proof -
  have fila: "fila_lista m' (dir_fila matriz w y) w k w" if y: "y < y0" for y
  proof (rule fila_lista_marco)
    show "fila_lista m (dir_fila matriz w y) w k w"
      using assms(1) y by (simp add: filas_listas_def)
    fix a assume "dir_fila matriz w y \<le> a" "a \<le> dir_fila matriz w y + w"
    then have "matriz \<le> a" "a < dir_fila matriz w y0"
      using dir_fila_mono [OF y, of matriz w] by (simp_all add: dir_fila_def)
    then show "bloques m' a = bloques m a"
      by (rule assms(2))
  qed
  have "bloques m' matriz = bloques m matriz"
    by (rule assms(2)) (simp_all add: dir_fila_def)
  then show ?thesis
    using assms(1) fila by (simp add: filas_listas_def)
qed

lemma deshacer_filas:
  assumes "filas_listas m matriz h w k y0" "y0 \<le> h" "0 < matriz" "w = nat ancho"
  shows "do { m3 \<leftarrow> liberar_filas matriz [0..<y0] ancho m; free matriz m3 }
           = Some (quitar {matriz..<dir_fila matriz w y0} m)"
proof -
  define m3 where "m3 = quitar {matriz + 1..<dir_fila matriz w y0} m"
  have lf: "liberar_filas matriz [0..<y0] ancho m = Some m3"
    unfolding m3_def using assms by (rule liberar_filas_listas)
  have "bloques m matriz \<noteq> None"
    using assms(1) by (auto simp: filas_listas_def)
  then have "bloques m3 matriz \<noteq> None"
    by (simp add: m3_def bloques_quitar)
  then have "free matriz m3 = Some (quitar {matriz} m3)"
    using assms(3) by (intro free_quitar) simp_all
  moreover have "{matriz} \<union> {matriz + 1..<dir_fila matriz w y0} = {matriz..<dir_fila matriz w y0}"
    by (auto simp: dir_fila_def)
  ultimately show ?thesis
    using lf by (simp add: m3_def quitar_quitar)
qed

lemma quitar_desde:
  assumes "mem_ok m" "siguiente m \<le> s"
  shows "bloques (quitar {matriz..<s} m) a = (if matriz \<le> a then None else bloques m a)"
  using mem_ok_fuera [OF assms(1), of a] assms(2) by (simp add: bloques_quitar)

lemma asignar_filas_ok:
  assumes "mem_ok m" "0 < matriz" "filas_listas m matriz h w k y0"
    and "siguiente m = dir_fila matriz w y0" "y0 \<le> h" "w = nat ancho" "k = nat canales"
  shows "\<exists>ok m'. asignar_filas matriz ancho canales [y0..<h] m = Some (ok, m')
           \<and> (\<forall>a<matriz. bloques m' a = bloques m a)
           \<and> (if ok then mem_ok m' \<and> filas_listas m' matriz h w k h
               else (\<forall>a. matriz \<le> a \<longrightarrow> bloques m' a = None))"
  using assms
proof (induction "h - y0" arbitrary: y0 m)
  case 0
  then have y0: "y0 = h"
    by simp
  have "asignar_filas matriz ancho canales [y0..<h] m = Some (True, m)"
    by (simp add: y0)
  then show ?case
    using "0.prems"(1,3) y0 by auto
next
  case (Suc d)
  then have y0: "y0 < h"
    by simp
  define F where "F = dir_fila matriz w"
  obtain mcs where mcs: "bloques m matriz = Some mcs" "length mcs = h"
    "\<And>y. y < y0 \<Longrightarrow> mcs ! y = Puntero (F y)"
    using Suc.prems(3) by (auto simp: filas_listas_def F_def)
  have sig: "siguiente m = F y0" and mayor: "matriz < F y0"
    using Suc.prems(4) by (simp_all add: F_def dir_fila_def)
  obtain fila m1 where ml: "malloc (nat ancho) m = (fila, m1)"
    by (cases "malloc (nat ancho) m")
  have lista: "[y0..<h] = y0 # [Suc y0..<h]"
    using y0 by (simp add: upt_conv_Cons)
  define m2 where "m2 = m1\<lparr>bloques := (bloques m1)(matriz \<mapsto> mcs[y0 := Puntero fila])\<rparr>"
  from malloc_casos [OF ml] show ?case
  proof (elim disjE conjE)
    assume f0: "fila = 0" and b1: "bloques m1 = bloques m" and s1: "siguiente m1 = siguiente m"
    have g: "guardar matriz y0 (Puntero fila) m1 = Some m2"
      using mcs y0 b1 by (simp add: guardar_Some m2_def)
    have ok2: "mem_ok m2"
      using Suc.prems(1) mcs(1) b1 s1 by (auto simp: mem_ok_def m2_def)
    have fl2: "filas_listas m2 matriz h w k y0"
      unfolding filas_listas_def
    proof (intro conjI exI allI impI)
      show "bloques m2 matriz = Some (mcs[y0 := Puntero fila])"
        by (simp add: m2_def)
      show "length (mcs[y0 := Puntero fila]) = h"
        using mcs by simp
      fix y assume y: "y < y0"
      show "mcs[y0 := Puntero fila] ! y = Puntero (dir_fila matriz w y)"
        using y mcs(3) by (simp add: F_def)
      show "fila_lista m2 (dir_fila matriz w y) w k w"
      proof (rule fila_lista_marco)
        show "fila_lista m (dir_fila matriz w y) w k w"
          using Suc.prems(3) y by (simp add: filas_listas_def)
        fix a assume "dir_fila matriz w y \<le> a"
        then have "a \<noteq> matriz"
          by (simp add: dir_fila_def)
        then show "bloques m2 a = bloques m a"
          using b1 by (simp add: m2_def)
      qed
    qed
    define m4 where "m4 = quitar {matriz..<F y0} m2"
    have "do { m3 \<leftarrow> liberar_filas matriz [0..<y0] ancho m2; free matriz m3 } = Some m4"
      unfolding m4_def F_def using fl2 Suc.prems(5,2,6) by (rule deshacer_filas)
    then have res: "asignar_filas matriz ancho canales [y0..<h] m = Some (False, m4)"
      using ml g f0 by (auto simp: lista bind_eq_Some_conv)
    have b4: "bloques m4 a = (if matriz \<le> a then None else bloques m2 a)" for a
      unfolding m4_def using ok2 by (rule quitar_desde) (simp add: m2_def s1 sig)
    have "\<forall>a<matriz. bloques m4 a = bloques m a"
      using b1 by (simp add: b4 m2_def)
    moreover have "\<forall>a. matriz \<le> a \<longrightarrow> bloques m4 a = None"
      by (simp add: b4)
    ultimately show ?thesis
      using res by auto
  next
    assume fs: "fila = siguiente m"
      and b1: "bloques m1 = (bloques m)(siguiente m \<mapsto> replicate (nat ancho) Basura)"
      and s1: "siguiente m1 = Suc (siguiente m)"
    have ff: "fila = F y0" "fila \<noteq> 0" "matriz < fila"
      using fs sig mayor by simp_all
    have g: "guardar matriz y0 (Puntero fila) m1 = Some m2"
      using mcs y0 b1 ff fs by (simp add: guardar_Some m2_def)
    have ok2: "mem_ok m2"
      using Suc.prems(1) mcs(1) b1 s1 by (auto simp: mem_ok_def m2_def)
    have c2: "cargar matriz y0 m2 = Some fila"
      using y0 mcs(2) by (simp add: cargar_def m2_def)
    have s2: "siguiente m2 = fila + 1 + 0"
      using s1 fs by (simp add: m2_def)
    have fl: "fila_lista m2 fila w k 0"
      using ff b1 fs Suc.prems(6) by (simp add: fila_lista_def m2_def)
    obtain r m3 x1 where ap: "asignar_pixeles matriz y0 canales [0..<w] m2 = Some (r, m3)"
      "r = None \<and> x1 = w \<or> r = Some x1 \<and> x1 < w" "mem_ok m3" "siguiente m3 = fila + 1 + x1"
      "\<forall>a. a < fila \<longrightarrow> bloques m3 a = bloques m2 a" "fila_lista m3 fila w k x1"
      using asignar_pixeles_ok [OF ok2 c2 ff(3) s2 _ fl Suc.prems(7)] by auto
    have viejo: "bloques m3 a = bloques m a" if "a < matriz" for a
      using that ap(5) ff(3) b1 fs by (simp add: m2_def)
    have fl3: "filas_listas m3 matriz h w k y0"
      unfolding filas_listas_def
    proof (intro conjI exI allI impI)
      show "bloques m3 matriz = Some (mcs[y0 := Puntero fila])"
        using ap(5) ff(3) by (simp add: m2_def)
      show "length (mcs[y0 := Puntero fila]) = h"
        using mcs by simp
      fix y assume y: "y < y0"
      show "mcs[y0 := Puntero fila] ! y = Puntero (dir_fila matriz w y)"
        using y mcs(3) by (simp add: F_def)
      show "fila_lista m3 (dir_fila matriz w y) w k w"
      proof (rule fila_lista_marco)
        show "fila_lista m (dir_fila matriz w y) w k w"
          using Suc.prems(3) y by (simp add: filas_listas_def)
        fix a assume a: "dir_fila matriz w y \<le> a" "a \<le> dir_fila matriz w y + w"
        then have "a \<noteq> matriz" "a < fila"
          using dir_fila_mono [OF y, of matriz w] ff(1) by (simp_all add: dir_fila_def F_def)
        then show "bloques m3 a = bloques m a"
          using ap(5) b1 fs by (simp add: m2_def)
      qed
    qed
    have c3: "cargar matriz y0 m3 = Some fila"
      using c2 ap(5) ff(3) by (simp add: cargar_def)
    have inicio: "asignar_filas matriz ancho canales [y0..<h] m
        = (case r of
             Some x \<Rightarrow> do {
               m4 \<leftarrow> liberar_pixeles matriz y0 [0..<x] m3;
               fila' \<leftarrow> cargar matriz y0 m4;
               m5 \<leftarrow> free fila' m4;
               m6 \<leftarrow> liberar_filas matriz [0..<y0] ancho m5;
               m7 \<leftarrow> free matriz m6;
               Some (False, m7) }
           | None \<Rightarrow> asignar_filas matriz ancho canales [Suc y0..<h] m3)"
      using ml g ff(2) ap(1) Suc.prems(6) by (simp add: lista)
    from ap(2) show ?thesis
    proof (elim disjE conjE)
      assume r: "r = Some x1" and x1: "x1 < w"
      define m4 where "m4 = quitar {fila + 1..<fila + 1 + x1} m3"
      define m5 where "m5 = quitar {fila..<fila + 1 + x1} m3"
      define m7 where "m7 = quitar {matriz..<F y0} m5"
      have "x1 \<le> w"
        using x1 by simp
      then have lp: "liberar_pixeles matriz y0 [0..<x1] m3 = Some m4"
        unfolding m4_def by (rule liberar_pixeles_fila [OF ap(6) c3 ff(3)])
      have c4: "cargar matriz y0 m4 = Some fila"
        using c3 ff(3) by (simp add: m4_def cargar_quitar)
      have "bloques m4 fila \<noteq> None"
        using ap(6) by (auto simp: fila_lista_def m4_def bloques_quitar)
      then have "free fila m4 = Some (quitar {fila} m4)"
        using ff(2) by (intro free_quitar)
      moreover have "{fila} \<union> {fila + 1..<fila + 1 + x1} = {fila..<fila + 1 + x1}"
        by auto
      ultimately have fr: "free fila m4 = Some m5"
        by (simp add: m4_def m5_def quitar_quitar)
      have fl5: "filas_listas m5 matriz h w k y0"
      proof (rule filas_listas_marco [OF fl3])
        fix a assume "a < dir_fila matriz w y0"
        then show "bloques m5 a = bloques m3 a"
          using ff(1) by (simp add: m5_def bloques_quitar F_def)
      qed
      have "do { m6 \<leftarrow> liberar_filas matriz [0..<y0] ancho m5; free matriz m6 } = Some m7"
        unfolding m7_def F_def using fl5 Suc.prems(5,2,6) by (rule deshacer_filas)
      then have res: "asignar_filas matriz ancho canales [y0..<h] m = Some (False, m7)"
        using lp c4 fr by (auto simp: inicio r bind_eq_Some_conv)
      have b7: "bloques m7 a = (if matriz \<le> a then None else bloques m a)" for a
      proof (cases "matriz \<le> a")
        case False
        then show ?thesis
          using viejo [of a] ff(3) by (simp add: m7_def m5_def bloques_quitar)
      next
        case True
        have "bloques m3 a = None" if "fila + 1 + x1 \<le> a"
          using mem_ok_fuera [OF ap(3)] ap(4) that by simp
        then show ?thesis
          using True ff(1) by (auto simp: m7_def m5_def bloques_quitar)
      qed
      have "\<forall>a<matriz. bloques m7 a = bloques m a"
        by (simp add: b7)
      moreover have "\<forall>a. matriz \<le> a \<longrightarrow> bloques m7 a = None"
        by (simp add: b7)
      ultimately show ?thesis
        using res by auto
    next
      assume r: "r = None" and x1: "x1 = w"
      have fl3': "filas_listas m3 matriz h w k (Suc y0)"
        unfolding filas_listas_def
      proof (intro conjI exI allI impI)
        show "bloques m3 matriz = Some (mcs[y0 := Puntero fila])"
          using ap(5) ff(3) by (simp add: m2_def)
        show "length (mcs[y0 := Puntero fila]) = h"
          using mcs by simp
        fix y assume y: "y < Suc y0"
        show "mcs[y0 := Puntero fila] ! y = Puntero (dir_fila matriz w y)"
          using y y0 mcs(2,3) ff(1) by (cases "y = y0") (simp_all add: F_def)
        show "fila_lista m3 (dir_fila matriz w y) w k w"
        proof (cases "y = y0")
          case True
          then show ?thesis
            using ap(6) x1 ff(1) by (simp add: F_def)
        next
          case False
          then have "y < y0"
            using y by simp
          then show ?thesis
            using fl3 by (simp add: filas_listas_def)
        qed
      qed
      have s3: "siguiente m3 = dir_fila matriz w (Suc y0)"
        using ap(4) x1 ff(1) by (simp add: F_def dir_fila_Suc)
      have d: "d = h - Suc y0"
        using Suc.hyps(2) by simp
      have sy: "Suc y0 \<le> h"
        using y0 by simp
      have "\<exists>ok m'. asignar_filas matriz ancho canales [Suc y0..<h] m3 = Some (ok, m')
           \<and> (\<forall>a<matriz. bloques m' a = bloques m3 a)
           \<and> (if ok then mem_ok m' \<and> filas_listas m' matriz h w k h
               else (\<forall>a. matriz \<le> a \<longrightarrow> bloques m' a = None))"
        by (rule Suc.hyps(1) [OF d ap(3) Suc.prems(2) fl3' s3 sy Suc.prems(6,7)])
      then obtain ok m' where rec: "asignar_filas matriz ancho canales [Suc y0..<h] m3 = Some (ok, m')"
        "\<forall>a<matriz. bloques m' a = bloques m3 a"
        "if ok then mem_ok m' \<and> filas_listas m' matriz h w k h
         else (\<forall>a. matriz \<le> a \<longrightarrow> bloques m' a = None)"
        by blast
      have "\<forall>a<matriz. bloques m' a = bloques m a"
        using rec(2) viejo by simp
      moreover have "asignar_filas matriz ancho canales [y0..<h] m = Some (ok, m')"
        using rec(1) by (simp add: inicio r)
      ultimately show ?thesis
        using rec(3) by blast
    qed
  qed
qed

lemma those_punteros: "those (map puntero_de (map Puntero qs)) = Some qs"
  by (induction qs) (simp_all add: puntero_de_def)

lemma punteros_Some_D:
  assumes "those (map puntero_de cs) = Some qs"
  shows "cs = map Puntero qs"
  using assms
proof (induction cs arbitrary: qs)
  case Nil
  then show ?case by simp
next
  case (Cons c cs)
  then show ?case
    by (cases c) (auto simp: puntero_de_def split: option.splits)
qed

lemma punteros_iff: "punteros m p = Some qs \<longleftrightarrow> bloques m p = Some (map Puntero qs)"
proof
  assume "punteros m p = Some qs"
  then show "bloques m p = Some (map Puntero qs)"
    by (auto simp: punteros_def dest: punteros_Some_D split: option.splits)
next
  assume "bloques m p = Some (map Puntero qs)"
  then show "punteros m p = Some qs"
    using those_punteros [of qs] by (simp add: punteros_def del: map_map)
qed

lemma those_map_nth:
  assumes "those (map f xs) = Some ys"
  shows "length ys = length xs \<and> (\<forall>i<length xs. f (xs ! i) = Some (ys ! i))"
  using assms
proof (induction xs arbitrary: ys)
  case Nil
  then show ?case by simp
next
  case (Cons x xs)
  then obtain y ys' where "f x = Some y" "those (map f xs) = Some ys'" "ys = y # ys'"
    by (auto split: option.splits)
  then show ?case
    using Cons.IH [of ys'] by (auto simp: nth_Cons')
qed

lemma estructura_D:
  assumes "estructura m matriz = Some (filas, pix)"
  shows "bloques m matriz = Some (map Puntero filas)" "length pix = length filas"
    "\<And>y. y < length filas \<Longrightarrow> bloques m (filas ! y) = Some (map Puntero (pix ! y))"
proof -
  have p: "punteros m matriz = Some filas" and t: "those (map (punteros m) filas) = Some pix"
    using assms by (auto simp: estructura_def split: option.splits)
  show "bloques m matriz = Some (map Puntero filas)"
    using p by (simp add: punteros_iff)
  show "length pix = length filas"
    using those_map_nth [OF t] by simp
  fix y assume "y < length filas"
  then have "punteros m (filas ! y) = Some (pix ! y)"
    using those_map_nth [OF t] by simp
  then show "bloques m (filas ! y) = Some (map Puntero (pix ! y))"
    by (simp add: punteros_iff)
qed

lemma estructura_I:
  assumes "bloques m matriz = Some (map Puntero (map F [0..<h]))"
    and "\<And>y. y < h \<Longrightarrow> bloques m (F y) = Some (map Puntero (G y))"
  shows "estructura m matriz = Some (map F [0..<h], map G [0..<h])"
proof -
  have "punteros m matriz = Some (map F [0..<h])"
    using assms(1) by (simp add: punteros_iff)
  moreover have "those (map (punteros m) (map F [0..<h])) = Some (map G [0..<h])"
    unfolding map_map
  proof (rule those_map_Some)
    fix y assume "y \<in> set [0..<h]"
    then show "(punteros m \<circ> F) y = Some (G y)"
      using assms(2) by (simp add: punteros_iff)
  qed
  ultimately show ?thesis
    by (simp add: estructura_def)
qed

lemma map2_map_map: "map2 f (map g ys) (map h ys) = map (\<lambda>y. f (g y) (h y)) ys"
  by (induction ys) simp_all

lemma filas_listas_estructura:
  assumes "filas_listas m matriz h w k h"
  shows "estructura m matriz
           = Some (map (dir_fila matriz w) [0..<h],
                   map (\<lambda>y. map (\<lambda>x. dir_fila matriz w y + 1 + x) [0..<w]) [0..<h])"
proof (rule estructura_I)
  obtain mcs where mcs: "bloques m matriz = Some mcs" "length mcs = h"
    "\<And>y. y < h \<Longrightarrow> mcs ! y = Puntero (dir_fila matriz w y)"
    using assms by (auto simp: filas_listas_def)
  have "mcs = map Puntero (map (dir_fila matriz w) [0..<h])"
    using mcs(2,3) by (intro nth_equalityI) simp_all
  then show "bloques m matriz = Some (map Puntero (map (dir_fila matriz w) [0..<h]))"
    using mcs(1) by simp
next
  fix y assume "y < h"
  then have "fila_lista m (dir_fila matriz w y) w k w"
    using assms by (simp add: filas_listas_def)
  then obtain fcs where fcs: "bloques m (dir_fila matriz w y) = Some fcs" "length fcs = w"
    "\<And>x. x < w \<Longrightarrow> fcs ! x = Puntero (dir_fila matriz w y + 1 + x)"
    by (auto simp: fila_lista_def)
  have "fcs = map Puntero (map (\<lambda>x. dir_fila matriz w y + 1 + x) [0..<w])"
    using fcs(2,3) by (intro nth_equalityI) simp_all
  then show "bloques m (dir_fila matriz w y)
               = Some (map Puntero (map (\<lambda>x. dir_fila matriz w y + 1 + x) [0..<w]))"
    using fcs(1) by simp
qed

lemma filas_listas_direcciones:
  assumes "filas_listas m matriz h w k h" "0 < matriz"
  shows "direcciones m matriz = [matriz..<dir_fila matriz w h]"
proof -
  have "concat (map (\<lambda>y. dir_fila matriz w y # map (\<lambda>x. dir_fila matriz w y + 1 + x) [0..<w]) [0..<h])
          = [matriz + 1..<dir_fila matriz w h]"
    unfolding bloque_fila by (rule bloques_filas)
  moreover have "matriz < dir_fila matriz w h"
    by (simp add: dir_fila_def)
  ultimately show ?thesis
    using assms(2) by (simp add: direcciones_def filas_listas_estructura [OF assms(1)]
        map2_map_map upt_conv_Cons)
qed

lemma filas_listas_asignada:
  assumes "filas_listas m matriz h w k h" "0 < matriz"
    and "h = nat alto" "w = nat ancho" "k = nat canales" "0 < alto" "0 < ancho" "0 < canales"
  shows "matriz_asignada m matriz alto ancho canales"
proof -
  have pix: "bloques m (dir_fila matriz w y + 1 + x) = Some (replicate k Basura)"
    if "y < h" "x < w" for y x
    using assms(1) that by (simp add: filas_listas_def fila_lista_def)
  have "list_all (\<lambda>ps. int (length ps) = ancho
           \<and> list_all (\<lambda>p. case bloques m p of None \<Rightarrow> False
                              | Some cs \<Rightarrow> int (length cs) = canales) ps)
          (map (\<lambda>y. map (\<lambda>x. dir_fila matriz w y + 1 + x) [0..<w]) [0..<h])"
    using assms(4,5,7,8) pix by (simp add: list_all_iff)
  moreover have "distinct (direcciones m matriz)" "0 \<notin> set (direcciones m matriz)"
    using assms(2) by (simp_all add: filas_listas_direcciones [OF assms(1,2)])
  ultimately show ?thesis
    using assms(2,3,6) by (simp add: matriz_asignada_def filas_listas_estructura [OF assms(1)])
qed

lemma asignarMatriz3D_ok:
  assumes "mem_ok m" "0 < alto" "0 < ancho" "0 < canales"
  shows "\<exists>r m'. asignarMatriz3D alto ancho canales m = Some (r, m')
           \<and> (case r of
                 Inl e \<Rightarrow> e = ErrorDeMemoria \<and> bloques m' = bloques m
               | Inr matriz \<Rightarrow> matriz_asignada m' matriz alto ancho canales
                               \<and> (\<forall>a. a < siguiente m \<longrightarrow> bloques m' a = bloques m a))"
proof -
  obtain matriz m1 where ml: "malloc (nat alto) m = (matriz, m1)"
    by (cases "malloc (nat alto) m")
  from malloc_casos [OF ml] show ?thesis
  proof (elim disjE conjE)
    assume "matriz = 0" "bloques m1 = bloques m"
    then have "asignarMatriz3D alto ancho canales m = Some (Inl ErrorDeMemoria, m1)"
      using assms ml by (simp add: asignarMatriz3D_def)
    then show ?thesis
      using \<open>bloques m1 = bloques m\<close> by simp
  next
    assume ms: "matriz = siguiente m"
      and b1: "bloques m1 = (bloques m)(siguiente m \<mapsto> replicate (nat alto) Basura)"
      and s1: "siguiente m1 = Suc (siguiente m)"
    have pos: "0 < matriz"
      using assms(1) ms by (simp add: mem_ok_def)
    have ok1: "mem_ok m1"
      using assms(1) b1 s1 by (auto simp: mem_ok_def)
    have fl: "filas_listas m1 matriz (nat alto) (nat ancho) (nat canales) 0"
      using b1 ms by (simp add: filas_listas_def)
    have sg: "siguiente m1 = dir_fila matriz (nat ancho) 0"
      using s1 ms by (simp add: dir_fila_def)
    obtain ok m2 where af: "asignar_filas matriz ancho canales [0..<nat alto] m1 = Some (ok, m2)"
      "\<forall>a<matriz. bloques m2 a = bloques m1 a"
      "if ok then mem_ok m2 \<and> filas_listas m2 matriz (nat alto) (nat ancho) (nat canales) (nat alto)
       else (\<forall>a. matriz \<le> a \<longrightarrow> bloques m2 a = None)"
      using asignar_filas_ok [OF ok1 pos fl sg] by blast
    have viejo: "bloques m2 a = bloques m a" if "a < matriz" for a
      using af(2) that b1 ms by simp
    have res: "asignarMatriz3D alto ancho canales m
                 = Some (if ok then Inr matriz else Inl ErrorDeMemoria, m2)"
      using assms ml pos af(1) by (simp add: asignarMatriz3D_def)
    show ?thesis
    proof (cases ok)
      case True
      then have "matriz_asignada m2 matriz alto ancho canales"
        using af(3) pos assms by (intro filas_listas_asignada) simp_all
      then show ?thesis
        using res True viejo ms by simp
    next
      case False
      have "bloques m2 a = bloques m a" for a
      proof (cases "a < matriz")
        case True
        then show ?thesis
          by (rule viejo)
      next
        case fuera: False
        then have "bloques m a = None"
          using mem_ok_fuera [OF assms(1), of a] ms by simp
        then show ?thesis
          using af(3) False fuera by simp
      qed
      then have "bloques m2 = bloques m"
        by (rule ext)
      then show ?thesis
        using res False by simp
    qed
  qed
qed

lemma liberar_matriz_asignada:
  assumes "matriz_asignada m matriz alto ancho canales"
  shows "do { m1 \<leftarrow> liberar_filas matriz [0..<nat alto] ancho m; free matriz m1 }
           = Some (quitar (set (direcciones m matriz)) m)"
proof -
  obtain filas pix where e: "estructura m matriz = Some (filas, pix)"
    using assms by (auto simp: matriz_asignada_def split: option.splits)
  have m0: "matriz \<noteq> 0" and h: "int (length filas) = alto"
    and la: "list_all (\<lambda>ps. int (length ps) = ancho
               \<and> list_all (\<lambda>p. case bloques m p of None \<Rightarrow> False
                                  | Some cs \<Rightarrow> int (length cs) = canales) ps) pix"
    and di: "distinct (direcciones m matriz)" and nz: "0 \<notin> set (direcciones m matriz)"
    using assms e by (simp_all add: matriz_asignada_def)
  note es = estructura_D [OF e]
  define F where "F = (\<lambda>y. filas ! y)"
  define P where "P = (\<lambda>y x. pix ! y ! x)"
  define R where "R = concat (map (\<lambda>y. F y # map (P y) [0..<nat ancho]) [0..<nat alto])"
  have hn: "nat alto = length filas"
    using h by simp
  have w: "length (pix ! y) = nat ancho" if "y < length filas" for y
    using la that es(2) by (auto simp: list_all_length)
  have vivo: "bloques m (pix ! y ! x) \<noteq> None" if "y < length filas" "x < nat ancho" for y x
  proof -
    have "list_all (\<lambda>p. case bloques m p of None \<Rightarrow> False
                           | Some cs \<Rightarrow> int (length cs) = canales) (pix ! y)"
      using la that(1) es(2) by (simp add: list_all_length)
    then have "case bloques m (pix ! y ! x) of None \<Rightarrow> False
               | Some cs \<Rightarrow> int (length cs) = canales"
      using that w [OF that(1)] by (simp add: list_all_length)
    then show ?thesis
      by (simp split: option.splits)
  qed
  have "map (\<lambda>y. F y # map (P y) [0..<nat ancho]) [0..<nat alto] = map2 (#) filas pix"
  proof (rule nth_equalityI)
    show "length (map (\<lambda>y. F y # map (P y) [0..<nat ancho]) [0..<nat alto])
            = length (map2 (#) filas pix)"
      using hn es(2) by simp
    fix y assume "y < length (map (\<lambda>y. F y # map (P y) [0..<nat ancho]) [0..<nat alto])"
    then have y: "y < length filas"
      using hn by simp
    have "map (P y) [0..<nat ancho] = pix ! y"
      unfolding P_def w [OF y, symmetric] by (rule map_nth)
    then show "map (\<lambda>y. F y # map (P y) [0..<nat ancho]) [0..<nat alto] ! y
                 = map2 (#) filas pix ! y"
      using y hn es(2) by (simp add: F_def)
  qed
  then have dir: "direcciones m matriz = matriz # R"
    using m0 e by (simp add: direcciones_def R_def)
  have enR: "F y \<in> set R" "x < nat ancho \<Longrightarrow> P y x \<in> set R" if "y < length filas" for y x
  proof -
    have "set (F y # map (P y) [0..<nat ancho]) \<subseteq> set R"
      using that hn by (auto simp: R_def)
    then show "F y \<in> set R" "x < nat ancho \<Longrightarrow> P y x \<in> set R"
      by auto
  qed
  have noR: "a \<noteq> 0 \<and> a \<noteq> matriz" if "a \<in> set R" for a
  proof -
    have "0 \<notin> set R" "matriz \<notin> set R"
      using di nz dir by simp_all
    then show ?thesis
      using that by metis
  qed
  have "liberar_filas matriz [0..<nat alto] ancho m = Some (quitar (set R) m)"
    unfolding R_def
  proof (rule liberar_filas_quitar)
    fix y assume "y \<in> set [0..<nat alto]"
    then have y: "y < length filas"
      using hn by simp
    have "cargar matriz y m = Some (F y)"
      using es(1) y by (intro cargar_Some [of m matriz "map Puntero filas"]) (simp_all add: F_def)
    moreover have "F y \<noteq> 0" "F y \<noteq> matriz"
      using noR [OF enR(1) [OF y]] by simp_all
    moreover have "bloques m (F y) \<noteq> None"
      using es(3) [OF y] by (simp add: F_def)
    ultimately show "cargar matriz y m = Some (F y) \<and> F y \<noteq> 0 \<and> F y \<noteq> matriz
                       \<and> bloques m (F y) \<noteq> None"
      by simp
  next
    fix y x assume "y \<in> set [0..<nat alto]" and x: "x < nat ancho"
    then have y: "y < length filas"
      using hn by simp
    have "cargar (F y) x m = Some (P y x)"
      using es(3) [OF y] x w [OF y]
      by (intro cargar_Some [of m "F y" "map Puntero (pix ! y)"]) (simp_all add: F_def P_def)
    moreover have "P y x \<noteq> 0" "P y x \<noteq> matriz"
      using noR [OF enR(2) [OF y x]] by simp_all
    moreover have "bloques m (P y x) \<noteq> None"
      using vivo [OF y x] by (simp add: P_def)
    ultimately show "cargar (F y) x m = Some (P y x) \<and> P y x \<noteq> 0 \<and> P y x \<noteq> matriz
                       \<and> bloques m (P y x) \<noteq> None"
      by simp
  next
    show "distinct (concat (map (\<lambda>y. F y # map (P y) [0..<nat ancho]) [0..<nat alto]))"
      using di dir by (simp add: R_def)
  qed
  moreover have "free matriz (quitar (set R) m) = Some (quitar {matriz} (quitar (set R) m))"
  proof (rule free_quitar [OF m0])
    have "matriz \<notin> set R"
      using di dir by simp
    then show "bloques (quitar (set R) m) matriz \<noteq> None"
      using es(1) by (simp add: bloques_quitar)
  qed
  ultimately show ?thesis
    by (simp add: dir quitar_quitar)
qed

text \<open>
  Claim C4. From a well-formed store, \<^verbatim>\<open>asignarMatriz3D\<close> always returns (it
  never runs into undefined behaviour). With a non-positive height, width or channel
  count it reports the parameter error and leaves the store as it is, without a call
  of \<^verbatim>\<open>malloc\<close>. Otherwise, whichever calls of \<^verbatim>\<open>malloc\<close> fail: when it
  reports an error, the live blocks are exactly those of before the call, every block
  it had allocated has been released; when it returns a grid, the grid is complete at
  every level, and the blocks of before the call are untouched.
\<close>

theorem asignarMatriz3D_todo_o_nada:
  assumes "mem_ok m"
  shows "(alto \<le> 0 \<or> ancho \<le> 0 \<or> canales \<le> 0
            \<longrightarrow> asignarMatriz3D alto ancho canales m = Some (Inl ParametrosInvalidos, m))
         \<and> (\<exists>r m'. asignarMatriz3D alto ancho canales m = Some (r, m')
               \<and> (case r of
                     Inl e \<Rightarrow> bloques m' = bloques m
                   | Inr matriz \<Rightarrow>
                       matriz_asignada m' matriz alto ancho canales
                       \<and> (\<forall>a. a < siguiente m \<longrightarrow> bloques m' a = bloques m a)))"
proof (cases "alto \<le> 0 \<or> ancho \<le> 0 \<or> canales \<le> 0")
  case True
  then have "asignarMatriz3D alto ancho canales m = Some (Inl ParametrosInvalidos, m)"
    by (simp add: asignarMatriz3D_def)
  then show ?thesis
    by simp
next
  case False
  then have "0 < alto" "0 < ancho" "0 < canales"
    by simp_all
  from asignarMatriz3D_ok [OF assms this]
  obtain r m' where r: "asignarMatriz3D alto ancho canales m = Some (r, m')"
    "case r of
       Inl e \<Rightarrow> e = ErrorDeMemoria \<and> bloques m' = bloques m
     | Inr matriz \<Rightarrow> matriz_asignada m' matriz alto ancho canales
                     \<and> (\<forall>a. a < siguiente m \<longrightarrow> bloques m' a = bloques m a)"
    by blast
  have "case r of
          Inl e \<Rightarrow> bloques m' = bloques m
        | Inr matriz \<Rightarrow> matriz_asignada m' matriz alto ancho canales
                        \<and> (\<forall>a. a < siguiente m \<longrightarrow> bloques m' a = bloques m a)"
    using r(2) by (cases r) simp_all
  then show ?thesis
    using False r(1) by blast
qed

theorem asignarMatriz3D_todo_o_nada_testigo:
  "mem_ok \<lparr>bloques = Map.empty, siguiente = 1, respuestas = [True, True, True, False]\<rparr>
   \<and> asignarMatriz3D 0 2 1
         \<lparr>bloques = Map.empty, siguiente = 1, respuestas = [True, True, True, False]\<rparr>
       = Some (Inl ParametrosInvalidos,
               \<lparr>bloques = Map.empty, siguiente = 1, respuestas = [True, True, True, False]\<rparr>)
   \<and> asignarMatriz3D 1 2 1
         \<lparr>bloques = Map.empty, siguiente = 1, respuestas = [True, True, True, False]\<rparr>
       = Some (Inl ErrorDeMemoria, \<lparr>bloques = Map.empty, siguiente = 4, respuestas = []\<rparr>)
   \<and> (\<exists>r m'. asignarMatriz3D 1 2 1
                  \<lparr>bloques = Map.empty, siguiente = 1, respuestas = [True, True, True, False]\<rparr>
                = Some (r, m')
              \<and> (case r of
                    Inl e \<Rightarrow> bloques m' = Map.empty
                  | Inr matriz \<Rightarrow>
                      matriz_asignada m' matriz 1 2 1
                      \<and> (\<forall>a. a < 1 \<longrightarrow> bloques m' a = None)))"
proof -
  define m :: memoria
    where "m = \<lparr>bloques = Map.empty, siguiente = 1, respuestas = [True, True, True, False]\<rparr>"
  have ok: "mem_ok m"
    by (simp add: mem_ok_def m_def)
  have p: "(0 :: int) \<le> 0 \<or> (2 :: int) \<le> 0 \<or> (1 :: int) \<le> 0"
    by simp
  have a: "asignarMatriz3D 0 2 1 m = Some (Inl ParametrosInvalidos, m)"
    by (rule asignarMatriz3D_todo_o_nada [OF ok, THEN conjunct1, rule_format, OF p])
  have b: "\<exists>r m'. asignarMatriz3D 1 2 1 m = Some (r, m')
              \<and> (case r of
                    Inl e \<Rightarrow> bloques m' = bloques m
                  | Inr matriz \<Rightarrow>
                      matriz_asignada m' matriz 1 2 1
                      \<and> (\<forall>a. a < siguiente m \<longrightarrow> bloques m' a = bloques m a))"
    by (rule asignarMatriz3D_todo_o_nada [OF ok, THEN conjunct2])
  have c: "asignarMatriz3D 1 2 1 m
             = Some (Inl ErrorDeMemoria, \<lparr>bloques = Map.empty, siguiente = 4, respuestas = []\<rparr>)"
    by (simp add: m_def asignarMatriz3D_def malloc_def guardar_def cargar_def free_def
        liberar_pixeles_def liberar_filas_def upt_rec)
  show ?thesis
    using ok a b c by (simp add: m_def)
qed

text \<open>
  Claim C9. On a grid state that is empty (\<^verbatim>\<open>pixeles = NULL\<close>) or completely
  allocated, \<^verbatim>\<open>liberarImagen\<close> always returns: it releases the blocks of every
  level of the grid and nothing else, and leaves the state \<^verbatim>\<open>{0, 0, 0, NULL}\<close>.
  Releasing twice is the same as releasing once, and releasing the empty state
  changes nothing.
\<close>

theorem liberarImagen_idempotente:
  assumes "i_pixeles info = 0
           \<or> matriz_asignada m (i_pixeles info) (i_alto info) (i_ancho info) (i_canales info)"
  shows "liberarImagen info m
           = Some (imagen_vacia, quitar (set (direcciones m (i_pixeles info))) m)
         \<and> do { (i, m1) \<leftarrow> liberarImagen info m; liberarImagen i m1 } = liberarImagen info m
         \<and> liberarImagen imagen_vacia m = Some (imagen_vacia, m)"
proof -
  have vacia: "liberarImagen imagen_vacia m' = Some (imagen_vacia, m')" for m'
    by (simp add: liberarImagen_def imagen_vacia_def)
  have uno: "liberarImagen info m
               = Some (imagen_vacia, quitar (set (direcciones m (i_pixeles info))) m)"
  proof (cases "i_pixeles info = 0")
    case True
    then show ?thesis
      by (simp add: liberarImagen_def imagen_vacia_def direcciones_def)
  next
    case False
    then have "matriz_asignada m (i_pixeles info) (i_alto info) (i_ancho info) (i_canales info)"
      using assms by simp
    from liberar_matriz_asignada [OF this] show ?thesis
      using False by (simp add: liberarImagen_def imagen_vacia_def)
  qed
  show ?thesis
    using uno vacia by simp
qed

theorem liberarImagen_idempotente_testigo:
  "matriz_asignada mem_ejemplo 1 1 1 1
   \<and> direcciones mem_ejemplo 1 = [1, 2, 3]
   \<and> liberarImagen \<lparr>i_ancho = 1, i_alto = 1, i_canales = 1, i_pixeles = 1\<rparr> mem_ejemplo
       = Some (imagen_vacia, quitar {1, 2, 3} mem_ejemplo)
   \<and> do { (i, m1) \<leftarrow> liberarImagen \<lparr>i_ancho = 1, i_alto = 1, i_canales = 1, i_pixeles = 1\<rparr>
                       mem_ejemplo;
           liberarImagen i m1 }
       = liberarImagen \<lparr>i_ancho = 1, i_alto = 1, i_canales = 1, i_pixeles = 1\<rparr> mem_ejemplo
   \<and> liberarImagen imagen_vacia mem_ejemplo = Some (imagen_vacia, mem_ejemplo)"
proof -
  have a: "matriz_asignada mem_ejemplo 1 1 1 1"
    by (simp add: matriz_asignada_def mem_ejemplo_def estructura_def punteros_def puntero_de_def
        direcciones_def)
  have d: "direcciones mem_ejemplo 1 = [1, 2, 3]"
    by (simp add: mem_ejemplo_def estructura_def punteros_def puntero_de_def direcciones_def)
  have "i_pixeles \<lparr>i_ancho = 1, i_alto = 1, i_canales = 1, i_pixeles = 1 :: dir\<rparr> = 0
        \<or> matriz_asignada mem_ejemplo
             (i_pixeles \<lparr>i_ancho = 1, i_alto = 1, i_canales = 1, i_pixeles = 1 :: dir\<rparr>)
             (i_alto \<lparr>i_ancho = 1, i_alto = 1, i_canales = 1, i_pixeles = 1 :: dir\<rparr>)
             (i_ancho \<lparr>i_ancho = 1, i_alto = 1, i_canales = 1, i_pixeles = 1 :: dir\<rparr>)
             (i_canales \<lparr>i_ancho = 1, i_alto = 1, i_canales = 1, i_pixeles = 1 :: dir\<rparr>)"
    using a by simp
  note t = liberarImagen_idempotente [OF this]
  have t1: "liberarImagen \<lparr>i_ancho = 1, i_alto = 1, i_canales = 1, i_pixeles = 1\<rparr> mem_ejemplo
              = Some (imagen_vacia, quitar {1, 2, 3} mem_ejemplo)"
    using t [THEN conjunct1] d by simp
  have t2: "do { (i, m1) \<leftarrow> liberarImagen \<lparr>i_ancho = 1, i_alto = 1, i_canales = 1, i_pixeles = 1\<rparr>
                             mem_ejemplo;
                 liberarImagen i m1 }
              = liberarImagen \<lparr>i_ancho = 1, i_alto = 1, i_canales = 1, i_pixeles = 1\<rparr> mem_ejemplo"
    by (rule t [THEN conjunct2, THEN conjunct1])
  have t3: "liberarImagen imagen_vacia mem_ejemplo = Some (imagen_vacia, mem_ejemplo)"
    by (rule t [THEN conjunct2, THEN conjunct2])
  show ?thesis
    using a d t1 t2 t3 by blast
qed

text \<open>
  Claim C7. \<^verbatim>\<open>generarKernelGaussiano\<close> rejects a size that is even or not
  positive, and a \<open>sigma\<close> that is not positive, and in both cases returns with the
  store exactly as it was: no call of \<^verbatim>\<open>malloc\<close> has been made. When both are
  invalid the size is reported, since it is tested first. Size 4 with \<open>sigma = 1\<close>
  is rejected for its size.
\<close>

theorem kernel_parametros_invalidos:
  "(tamKernel \<le> 0 \<or> even tamKernel
      \<longrightarrow> generarKernelGaussiano tamKernel sigma m = Some (Inl TamKernelInvalido, m))
   \<and> (sigma \<le> 0
      \<longrightarrow> generarKernelGaussiano tamKernel sigma m
            = Some (Inl (if tamKernel \<le> 0 \<or> even tamKernel then TamKernelInvalido
                         else SigmaInvalido), m))
   \<and> generarKernelGaussiano 4 1 m = Some (Inl TamKernelInvalido, m)"
  by (simp add: generarKernelGaussiano_def even_iff_mod_2_eq_zero)

theorem kernel_parametros_invalidos_testigo:
  "generarKernelGaussiano (- 3) 1 \<lparr>bloques = Map.empty, siguiente = 1, respuestas = []\<rparr>
     = Some (Inl TamKernelInvalido, \<lparr>bloques = Map.empty, siguiente = 1, respuestas = []\<rparr>)
   \<and> generarKernelGaussiano 3 (- 1) \<lparr>bloques = Map.empty, siguiente = 1, respuestas = []\<rparr>
     = Some (Inl SigmaInvalido, \<lparr>bloques = Map.empty, siguiente = 1, respuestas = []\<rparr>)"
proof -
  have a: "(- 3 :: int) \<le> 0 \<or> even (- 3 :: int)"
    by simp
  have b: "(- 1 :: real) \<le> 0"
    by simp
  show ?thesis
    using kernel_parametros_invalidos [of "- 3" 1 "\<lparr>bloques = Map.empty, siguiente = 1, respuestas = []\<rparr>",
        THEN conjunct1, rule_format, OF a]
      kernel_parametros_invalidos [of 3 "- 1" "\<lparr>bloques = Map.empty, siguiente = 1, respuestas = []\<rparr>",
        THEN conjunct2, THEN conjunct1, rule_format, OF b]
    by simp
qed

end
